theory Spec2Isabelle
  imports Main "HOL-Library.Sublist" "HOL-Library.AList"
begin

section \<open>Strings\<close>

text \<open>
  A Go string is a sequence of bytes; here it is a \<open>string\<close>, a list of \<open>char\<close>, one
  \<open>char\<close> for each byte. The packages \<open>strings\<close> and \<open>regexp\<close> read a string as UTF-8
  text, in which a character outside ASCII is two to four bytes. White space is what
  \<open>unicode.IsSpace\<close> takes for it, read on the bytes. A word character is an ASCII
  letter, a digit or the underscore, as in \<open>regexp/syntax\<close>. Letters fold between upper
  and lower case within ASCII; that \<open>regexp\<close> also folds the letters outside ASCII, and
  takes the Kelvin sign for a \<open>k\<close> and the long s for an \<open>s\<close>, is not modelled.
\<close>

definition NL :: char where
  "NL = CHR 0x0A"

definition backslash :: char where
  "backslash = CHR 0x5C"

text \<open>\<open>unicode.IsSpace\<close> on ASCII: tab, line feed, vertical tab, form feed, carriage
  return and space.\<close>

definition isSpace :: "char \<Rightarrow> bool" where
  "isSpace c = (let n = (of_char c :: nat) in (9 \<le> n \<and> n \<le> 13) \<or> n = 32)"

text \<open>\<open>unicode.IsSpace\<close> outside ASCII, on the bytes of the UTF-8 encoding: U+0085 and
  U+00A0 are two bytes; U+1680, U+2000 to U+200A, U+2028, U+2029, U+202F, U+205F and
  U+3000 are three.\<close>

definition isSpace2 :: "char \<Rightarrow> char \<Rightarrow> bool" where
  "isSpace2 a b =
     (let x = (of_char a :: nat); y = (of_char b :: nat) in
        x = 0xC2 \<and> (y = 0x85 \<or> y = 0xA0))"

definition isSpace3 :: "char \<Rightarrow> char \<Rightarrow> char \<Rightarrow> bool" where
  "isSpace3 a b c =
     (let x = (of_char a :: nat); y = (of_char b :: nat); z = (of_char c :: nat) in
        (x = 0xE1 \<and> y = 0x9A \<and> z = 0x80) \<or>
        (x = 0xE2 \<and> y = 0x80 \<and> ((0x80 \<le> z \<and> z \<le> 0x8A) \<or> z = 0xA8 \<or> z = 0xA9 \<or> z = 0xAF)) \<or>
        (x = 0xE2 \<and> y = 0x81 \<and> z = 0x9F) \<or>
        (x = 0xE3 \<and> y = 0x80 \<and> z = 0x80))"

text \<open>\<open>strings.TrimLeftFunc\<close> with \<open>unicode.IsSpace\<close>: the characters are decoded from
  the start and dropped as long as they are white space. A byte that begins no white
  space character ends the loop, be it the start of another character or of none.\<close>

fun TrimLeft :: "string \<Rightarrow> string" where
  "TrimLeft [] = []"
| "TrimLeft (a # s) =
     (if isSpace a then TrimLeft s
      else (case s of
              [] \<Rightarrow> a # s
            | b # t \<Rightarrow>
                if isSpace2 a b then TrimLeft t
                else (case t of
                        [] \<Rightarrow> a # s
                      | c # u \<Rightarrow> if isSpace3 a b c then TrimLeft u else a # s)))"

text \<open>\<open>strings.TrimRightFunc\<close> with \<open>unicode.IsSpace\<close>: the same from the end, where
  \<open>utf8.DecodeLastRuneInString\<close> finds a white space character exactly when the string
  ends with its bytes. The argument and the result are the string reversed.\<close>

fun TrimRight_rev :: "string \<Rightarrow> string" where
  "TrimRight_rev [] = []"
| "TrimRight_rev (a # s) =
     (if isSpace a then TrimRight_rev s
      else (case s of
              [] \<Rightarrow> a # s
            | b # t \<Rightarrow>
                if isSpace2 b a then TrimRight_rev t
                else (case t of
                        [] \<Rightarrow> a # s
                      | c # u \<Rightarrow> if isSpace3 c b a then TrimRight_rev u else a # s)))"

text \<open>\<open>strings.TrimSpace\<close>: the string without its leading and trailing white space.\<close>

definition TrimSpace :: "string \<Rightarrow> string" where
  "TrimSpace s = rev (TrimRight_rev (rev (TrimLeft s)))"

text \<open>\<open>strings.HasPrefix\<close> and \<open>strings.Contains\<close>: plain comparison of bytes; the empty
  string is contained in every string.\<close>

fun HasPrefix :: "string \<Rightarrow> string \<Rightarrow> bool" where
  "HasPrefix s [] = True"
| "HasPrefix [] (x # xs) = False"
| "HasPrefix (c # cs) (x # xs) = (c = x \<and> HasPrefix cs xs)"

fun Contains :: "string \<Rightarrow> string \<Rightarrow> bool" where
  "Contains [] substr = (substr = [])"
| "Contains (c # cs) substr = (HasPrefix (c # cs) substr \<or> Contains cs substr)"

subsection \<open>Valid UTF-8\<close>

text \<open>
  \<open>regexp\<close> refuses a pattern that is not valid UTF-8. The encodings that
  \<open>utf8.DecodeRuneInString\<close> accepts are read by an automaton over the bytes: \<open>AtRune\<close>
  between two characters, \<open>Need1\<close> to \<open>Need3\<close> when so many continuation bytes are
  still to come, \<open>NeedE0\<close>, \<open>NeedED\<close>, \<open>NeedF0\<close> and \<open>NeedF4\<close> after a first byte that
  narrows the range of the second, and \<open>Bad\<close> after a byte that no encoding allows.
\<close>

datatype utf8_state = AtRune | Need1 | Need2 | Need3 | NeedE0 | NeedED | NeedF0 | NeedF4 | Bad

definition utf8_step :: "utf8_state \<Rightarrow> char \<Rightarrow> utf8_state" where
  "utf8_step q c =
     (let b = (of_char c :: nat) in
      case q of
        AtRune \<Rightarrow>
          if b < 0x80 then AtRune
          else if 0xC2 \<le> b \<and> b \<le> 0xDF then Need1
          else if b = 0xE0 then NeedE0
          else if b = 0xED then NeedED
          else if 0xE1 \<le> b \<and> b \<le> 0xEF then Need2
          else if b = 0xF0 then NeedF0
          else if 0xF1 \<le> b \<and> b \<le> 0xF3 then Need3
          else if b = 0xF4 then NeedF4
          else Bad
      | Need1 \<Rightarrow> if 0x80 \<le> b \<and> b \<le> 0xBF then AtRune else Bad
      | Need2 \<Rightarrow> if 0x80 \<le> b \<and> b \<le> 0xBF then Need1 else Bad
      | Need3 \<Rightarrow> if 0x80 \<le> b \<and> b \<le> 0xBF then Need2 else Bad
      | NeedE0 \<Rightarrow> if 0xA0 \<le> b \<and> b \<le> 0xBF then Need1 else Bad
      | NeedED \<Rightarrow> if 0x80 \<le> b \<and> b \<le> 0x9F then Need1 else Bad
      | NeedF0 \<Rightarrow> if 0x90 \<le> b \<and> b \<le> 0xBF then Need2 else Bad
      | NeedF4 \<Rightarrow> if 0x80 \<le> b \<and> b \<le> 0x8F then Need2 else Bad
      | Bad \<Rightarrow> Bad)"

text \<open>\<open>utf8.ValidString\<close>.\<close>

definition ValidString :: "string \<Rightarrow> bool" where
  "ValidString s = (foldl utf8_step AtRune s = AtRune)"

text \<open>A continuation byte, and the number of characters of a string of valid UTF-8
  (\<open>utf8.RuneCountInString\<close>): its bytes that are no continuation bytes.\<close>

definition isCont :: "char \<Rightarrow> bool" where
  "isCont c = (let b = (of_char c :: nat) in 0x80 \<le> b \<and> b \<le> 0xBF)"

definition countRunes :: "string \<Rightarrow> nat" where
  "countRunes s = length (filter (\<lambda>c. \<not> isCont c) s)"

section \<open>The package regexp, as far as the program uses it\<close>

subsection \<open>Syntax trees\<close>

text \<open>
  The operators of \<open>regexp/syntax\<close> that the pattern of the program is made of. A literal
  is one character with its \<open>FoldCase\<close> flag; a capture carries its index.
\<close>

datatype regex =
    OpEmptyMatch
  | OpLiteral char bool
  | OpAnyCharNotNL
  | OpAnyChar
  | OpBeginLine
  | OpEndLine
  | OpBeginText
  | OpEndText
  | OpWordBoundary
  | OpNoWordBoundary
  | OpCapture nat regex
  | OpStar regex
  | OpConcat regex regex

text \<open>The concatenation of a sequence of nodes, as the parser collapses it: no node is
  the empty match, one node is itself.\<close>

fun concat_of :: "regex list \<Rightarrow> regex" where
  "concat_of [] = OpEmptyMatch"
| "concat_of [r] = r"
| "concat_of (r # rs) = OpConcat r (concat_of rs)"

text \<open>
  The parser counts the characters of the literals it reads (\<open>numRunes\<close>) and gives up
  with \<open>ErrLarge\<close> when there are more than \<open>maxRunes\<close>, which is \<open>128 << 20 / 4\<close>. A
  literal of the model is a byte, and a character counts at its first byte. Versions of
  the package older than this limit accept a pattern of any length.
\<close>

primrec NumRunes :: "regex \<Rightarrow> nat" where
  "NumRunes OpEmptyMatch = 0"
| "NumRunes (OpLiteral c fc) = (if isCont c then 0 else 1)"
| "NumRunes OpAnyCharNotNL = 0"
| "NumRunes OpAnyChar = 0"
| "NumRunes OpBeginLine = 0"
| "NumRunes OpEndLine = 0"
| "NumRunes OpBeginText = 0"
| "NumRunes OpEndText = 0"
| "NumRunes OpWordBoundary = 0"
| "NumRunes OpNoWordBoundary = 0"
| "NumRunes (OpCapture i r) = NumRunes r"
| "NumRunes (OpStar r) = NumRunes r"
| "NumRunes (OpConcat r1 r2) = NumRunes r1 + NumRunes r2"

definition maxRunes :: int where
  "maxRunes = 33554432"

subsection \<open>\<open>regexp.QuoteMeta\<close>\<close>

text \<open>The special bytes of \<open>regexp.QuoteMeta\<close>: \<open>\.+*?()|[]{}^$\<close>.\<close>

definition special :: "char \<Rightarrow> bool" where
  "special c = (c = backslash \<or> c \<in> set ''.+*?()|[]{}^$'')"

fun QuoteMeta :: "string \<Rightarrow> string" where
  "QuoteMeta [] = []"
| "QuoteMeta (c # cs) = (if special c then backslash # c # QuoteMeta cs else c # QuoteMeta cs)"

subsection \<open>Parsing\<close>

text \<open>
  The flags a pattern can set with \<open>(?ims)\<close>. \<open>regexp.Compile\<close> parses with the Perl
  flags, so a pattern starts case sensitive, with \<open>^\<close> and \<open>$\<close> matching at the ends of
  the text only (\<open>OneLine\<close>) and \<open>.\<close> not matching a line feed.
\<close>

record flags =
  FoldCase :: bool
  OneLine :: bool
  DotNL :: bool

definition perl_flags :: flags where
  "perl_flags = \<lparr>FoldCase = False, OneLine = True, DotNL = False\<rparr>"

definition isAlnum :: "char \<Rightarrow> bool" where
  "isAlnum c = (let n = (of_char c :: nat) in
     (48 \<le> n \<and> n \<le> 57) \<or> (65 \<le> n \<and> n \<le> 90) \<or> (97 \<le> n \<and> n \<le> 122))"

text \<open>
  The parser keeps, as \<open>regexp/syntax\<close> does, a stack: for every open parenthesis the
  flags to restore at its close, the index of its capture and the nodes before it (last
  node first). \<open>parse fl ncap stack nodes s\<close> reads \<open>s\<close> with the flags \<open>fl\<close>, after
  \<open>ncap\<close> captures, having read \<open>nodes\<close> (last first) in the current group.

  The model covers the syntax that the pattern of the program uses: literals, escaped
  punctuation, \<open>.\<close>, \<open>^\<close>, \<open>$\<close>, \<open>\b\<close>, \<open>\B\<close>, \<open>\A\<close>, \<open>\z\<close>, \<open>*\<close>, capturing groups and
  the flag group \<open>(?ims)\<close>. \<open>None\<close> is a syntax error or syntax outside this fragment:
  alternation, classes, the other repetitions and the escapes made of a letter or a
  digit. A character outside ASCII is read byte by byte, each byte a literal.
\<close>

fun parsePerlFlags :: "flags \<Rightarrow> string \<Rightarrow> (flags \<times> string) option" where
  "parsePerlFlags fl [] = None"
| "parsePerlFlags fl (c # s) =
     (if c = CHR ''i'' then parsePerlFlags (fl\<lparr>FoldCase := True\<rparr>) s
      else if c = CHR ''m'' then parsePerlFlags (fl\<lparr>OneLine := False\<rparr>) s
      else if c = CHR ''s'' then parsePerlFlags (fl\<lparr>DotNL := True\<rparr>) s
      else if c = CHR '')'' then Some (fl, s)
      else None)"

lemma parsePerlFlags_shorter:
  "parsePerlFlags fl s = Some (fl', s') \<Longrightarrow> length s' < length s"
  by (induction fl s rule: parsePerlFlags.induct) (auto split: if_splits)

type_synonym frame = "flags \<times> nat \<times> regex list"

function parse :: "flags \<Rightarrow> nat \<Rightarrow> frame list \<Rightarrow> regex list \<Rightarrow> string \<Rightarrow> regex option" where
  "parse fl ncap stack nodes [] =
     (if stack = [] then Some (concat_of (rev nodes)) else None)"
| "parse fl ncap stack nodes (c # s) =
     (if c = CHR ''('' then
        (case s of
           [] \<Rightarrow> None
         | d # s1 \<Rightarrow>
             if d = CHR ''?'' then
               (case parsePerlFlags fl s1 of
                  None \<Rightarrow> None
                | Some (fl', s2) \<Rightarrow> parse fl' ncap stack nodes s2)
             else parse fl (Suc ncap) ((fl, Suc ncap, nodes) # stack) [] s)
      else if c = CHR '')'' then
        (case stack of
           [] \<Rightarrow> None
         | (fl0, idx, outer) # stack' \<Rightarrow>
             parse fl0 ncap stack' (OpCapture idx (concat_of (rev nodes)) # outer) s)
      else if c = CHR ''*'' then
        (case nodes of
           [] \<Rightarrow> None
         | OpStar r # nodes' \<Rightarrow> None
         | r # nodes' \<Rightarrow> parse fl ncap stack (OpStar r # nodes') s)
      else if c = CHR ''.'' then
        parse fl ncap stack ((if DotNL fl then OpAnyChar else OpAnyCharNotNL) # nodes) s
      else if c = CHR ''^'' then
        parse fl ncap stack ((if OneLine fl then OpBeginText else OpBeginLine) # nodes) s
      else if c = CHR ''$'' then
        parse fl ncap stack ((if OneLine fl then OpEndText else OpEndLine) # nodes) s
      else if c = backslash then
        (case s of
           [] \<Rightarrow> None
         | d # s1 \<Rightarrow>
             if d = CHR ''b'' then parse fl ncap stack (OpWordBoundary # nodes) s1
             else if d = CHR ''B'' then parse fl ncap stack (OpNoWordBoundary # nodes) s1
             else if d = CHR ''A'' then parse fl ncap stack (OpBeginText # nodes) s1
             else if d = CHR ''z'' then parse fl ncap stack (OpEndText # nodes) s1
             else if (of_char d :: nat) < 128 \<and> \<not> isAlnum d
               then parse fl ncap stack (OpLiteral d (FoldCase fl) # nodes) s1
             else None)
      else if c \<in> set ''+?|[{'' then None
      else parse fl ncap stack (OpLiteral c (FoldCase fl) # nodes) s)"
  by pat_completeness auto
termination
  by (relation "measure (\<lambda>(fl, ncap, stack, nodes, s). length s)")
     (auto dest: parsePerlFlags_shorter)

text \<open>
  \<open>regexp.Compile\<close>: the pattern must be valid UTF-8 (\<open>ErrInvalidUTF8\<close> otherwise), it
  must parse, and its literals must hold no more than \<open>maxRunes\<close> characters (\<open>ErrLarge\<close>
  otherwise; the pattern of the program has no counted repetition and no nesting that
  the other two limits of the parser, on the size of the program and on the height of the
  tree, could meet). \<open>None\<close> is the error. \<open>regexp.MustCompile\<close> panics where \<open>Compile\<close>
  returns an error, which here is \<open>None\<close> again.
\<close>

definition Compile :: "string \<Rightarrow> regex option" where
  "Compile s =
     (if \<not> ValidString s then None
      else
        (case parse perl_flags 0 [] [] s of
           None \<Rightarrow> None
         | Some re \<Rightarrow> if int (NumRunes re) > maxRunes then None else Some re))"

definition MustCompile :: "string \<Rightarrow> regex option" where
  "MustCompile s = Compile s"

subsection \<open>Matching\<close>

text \<open>
  The matcher is the backtracking search whose first result \<open>regexp\<close> promises to
  return (leftmost-first matching). A thread is a position in the text with the captures
  made so far: the captured texts by index, the text before the position (last character
  first) and the text after it. \<open>run r th\<close> lists the threads that \<open>r\<close> can reach from
  \<open>th\<close>, the preferred one first.
\<close>

type_synonym thread = "(nat \<rightharpoonup> string) \<times> string \<times> string"

text \<open>\<open>syntax.IsWordChar\<close>: an ASCII letter, a digit or the underscore.\<close>

definition isWordChar :: "char \<Rightarrow> bool" where
  "isWordChar c = (isAlnum c \<or> c = CHR ''_'')"

text \<open>A literal with \<open>FoldCase\<close> matches the letter in either case.\<close>

definition isUpper :: "char \<Rightarrow> bool" where
  "isUpper c = (let n = (of_char c :: nat) in 65 \<le> n \<and> n \<le> 90)"

definition equalFold :: "char \<Rightarrow> char \<Rightarrow> bool" where
  "equalFold a b =
     (a = b \<or> (isUpper a \<and> (of_char b :: nat) = of_char a + 32)
            \<or> (isUpper b \<and> (of_char a :: nat) = of_char b + 32))"

text \<open>The character before and after a position; at the ends of the text there is
  none.\<close>

definition wordBefore :: "string \<Rightarrow> bool" where
  "wordBefore left = (case left of [] \<Rightarrow> False | c # _ \<Rightarrow> isWordChar c)"

definition wordAfter :: "string \<Rightarrow> bool" where
  "wordAfter right = (case right of [] \<Rightarrow> False | c # _ \<Rightarrow> isWordChar c)"

definition atBeginLine :: "string \<Rightarrow> bool" where
  "atBeginLine left = (case left of [] \<Rightarrow> True | c # _ \<Rightarrow> c = NL)"

definition atEndLine :: "string \<Rightarrow> bool" where
  "atEndLine right = (case right of [] \<Rightarrow> True | c # _ \<Rightarrow> c = NL)"

text \<open>One character, if the text has one left and the test accepts it.\<close>

definition step_char :: "(char \<Rightarrow> bool) \<Rightarrow> thread \<Rightarrow> thread list" where
  "step_char ok th =
     (case th of (caps, left, right) \<Rightarrow>
        (case right of
           [] \<Rightarrow> []
         | c # cs \<Rightarrow> if ok c then [(caps, c # left, cs)] else []))"

definition step_empty :: "bool \<Rightarrow> thread \<Rightarrow> thread list" where
  "step_empty ok th = (if ok then [th] else [])"

text \<open>
  The greedy star: one more round of \<open>f\<close> first, then none. A round that consumes no
  text is not repeated, so the number of rounds is at most the length of the text left,
  which is the fuel \<open>n\<close>.
\<close>

fun star :: "(thread \<Rightarrow> thread list) \<Rightarrow> nat \<Rightarrow> thread \<Rightarrow> thread list" where
  "star f 0 th = [th]"
| "star f (Suc n) th =
     concat (map (\<lambda>th'. if length (snd (snd th')) < length (snd (snd th))
                          then star f n th' else [])
                 (f th)) @ [th]"

primrec run :: "regex \<Rightarrow> thread \<Rightarrow> thread list" where
  "run OpEmptyMatch = (\<lambda>th. [th])"
| "run (OpLiteral c fc) = step_char (\<lambda>x. if fc then equalFold c x else x = c)"
| "run OpAnyCharNotNL = step_char (\<lambda>x. x \<noteq> NL)"
| "run OpAnyChar = step_char (\<lambda>x. True)"
| "run OpBeginLine = (\<lambda>th. step_empty (atBeginLine (fst (snd th))) th)"
| "run OpEndLine = (\<lambda>th. step_empty (atEndLine (snd (snd th))) th)"
| "run OpBeginText = (\<lambda>th. step_empty (fst (snd th) = []) th)"
| "run OpEndText = (\<lambda>th. step_empty (snd (snd th) = []) th)"
| "run OpWordBoundary =
     (\<lambda>th. step_empty (wordBefore (fst (snd th)) \<noteq> wordAfter (snd (snd th))) th)"
| "run OpNoWordBoundary =
     (\<lambda>th. step_empty (wordBefore (fst (snd th)) = wordAfter (snd (snd th))) th)"
| "run (OpCapture i r) =
     (\<lambda>th. map (\<lambda>(caps, left, right).
                 (caps(i \<mapsto> rev (take (length left - length (fst (snd th))) left)), left, right))
              (run r th))"
| "run (OpStar r) = (\<lambda>th. star (run r) (length (snd (snd th))) th)"
| "run (OpConcat r1 r2) = (\<lambda>th. concat (map (run r2) (run r1 th)))"

text \<open>The number of capturing groups (\<open>NumSubexp\<close>).\<close>

primrec NumSubexp :: "regex \<Rightarrow> nat" where
  "NumSubexp OpEmptyMatch = 0"
| "NumSubexp (OpLiteral c fc) = 0"
| "NumSubexp OpAnyCharNotNL = 0"
| "NumSubexp OpAnyChar = 0"
| "NumSubexp OpBeginLine = 0"
| "NumSubexp OpEndLine = 0"
| "NumSubexp OpBeginText = 0"
| "NumSubexp OpEndText = 0"
| "NumSubexp OpWordBoundary = 0"
| "NumSubexp OpNoWordBoundary = 0"
| "NumSubexp (OpCapture i r) = max i (NumSubexp r)"
| "NumSubexp (OpStar r) = NumSubexp r"
| "NumSubexp (OpConcat r1 r2) = max (NumSubexp r1) (NumSubexp r2)"

text \<open>
  The leftmost match: the first position of the text, from the left, where the pattern
  matches, and the preferred match there. \<open>search re left right\<close> gives the text before
  the match (last character first) and the thread at the end of the match.
\<close>

fun search :: "regex \<Rightarrow> string \<Rightarrow> string \<Rightarrow> (string \<times> thread) option" where
  "search re left right =
     (case run re (Map.empty, left, right) of
        th # _ \<Rightarrow> Some (left, th)
      | [] \<Rightarrow> (case right of [] \<Rightarrow> None | c # cs \<Rightarrow> search re (c # left) cs))"

text \<open>
  \<open>FindStringSubmatch\<close>: \<open>None\<close> is the nil slice of no match; otherwise the text of the
  match, then the text of each capture by index (the empty string for a capture that
  took no part in the match).
\<close>

definition submatches :: "regex \<Rightarrow> (string \<times> thread) option \<Rightarrow> string list option" where
  "submatches re r =
     (case r of
        None \<Rightarrow> None
      | Some (start, (caps, left, right)) \<Rightarrow>
          Some (rev (take (length left - length start) left) #
                map (\<lambda>i. case caps i of None \<Rightarrow> [] | Some x \<Rightarrow> x)
                    [1 ..< Suc (NumSubexp re)]))"

definition FindStringSubmatch :: "regex \<Rightarrow> string \<Rightarrow> string list option" where
  "FindStringSubmatch re s = submatches re (search re [] s)"

section \<open>The matching engine of the program\<close>

text \<open>
  A Go map is an association list with distinct keys: \<open>m[k] = v\<close> is \<open>AList.update\<close>,
  \<open>delete(m, k)\<close> is \<open>AList.delete\<close>, a lookup is \<open>map_of\<close>. A \<open>range\<close> over the
  map visits every entry once, in an order Go leaves open; the model visits the entries
  in the order of the list, and the theorems hold for every order.
\<close>

text \<open>The entries of \<open>config.Keywords\<close>. The type is declared outside \<open>main.go\<close>; the
  two fields are the ones \<open>main\<close> reads.\<close>

record keywordType =
  Keyword :: string
  Exceptions :: "string list"

text \<open>\<open>keywordRegexType\<close>; the pointer \<open>regexp\<close> is \<open>None\<close> when nil.\<close>

record keywordRegexType =
  regexp :: "regex option"
  exceptions :: "string list"

text \<open>\<open>checkExceptions\<close> (the debug line it prints is left out).\<close>

fun checkExceptions :: "string \<Rightarrow> string list \<Rightarrow> bool" where
  "checkExceptions s [] = False"
| "checkExceptions s (x # xs) = (if Contains s x then True else checkExceptions s xs)"

text \<open>
  \<open>checkKeywords\<close>: the loop over \<open>keywordsRegex\<close>, with \<open>status\<close> and \<open>found\<close> as
  its state. \<open>None\<close> is the panic of \<open>s[1]\<close> on a slice with no second element, which a
  pattern without a capture would give.
\<close>

fun checkKeywords_loop ::
  "string \<Rightarrow> (string \<times> keywordRegexType) list \<Rightarrow> bool \<times> (string \<times> string) list \<Rightarrow>
   (bool \<times> (string \<times> string) list) option" where
  "checkKeywords_loop body [] (status, found) = Some (status, found)"
| "checkKeywords_loop body ((k, v) # kvs) (status, found) =
     (case regexp v of
        None \<Rightarrow> checkKeywords_loop body kvs (status, found)
      | Some re \<Rightarrow>
          (case FindStringSubmatch re body of
             None \<Rightarrow> checkKeywords_loop body kvs (status, found)
           | Some s \<Rightarrow>
               if length s \<le> 1 then None
               else
                 let match = TrimSpace (s ! 1) in
                 if \<not> checkExceptions match (exceptions v)
                 then checkKeywords_loop body kvs (True, AList.update k match found)
                 else checkKeywords_loop body kvs (status, found)))"

definition checkKeywords ::
  "(string \<times> keywordRegexType) list \<Rightarrow> string \<Rightarrow> (bool \<times> (string \<times> string) list) option" where
  "checkKeywords keywordsRegex body = checkKeywords_loop body keywordsRegex (False, [])"

text \<open>
  The loop of \<open>main\<close> that fills \<open>keywordsRegex\<close> from \<open>config.Keywords\<close>. The pattern
  is the format string \<open>(?im)^(.*\b%s.*)$\<close> with the quoted keyword in the place of
  \<open>%s\<close>. \<open>None\<close> is the panic of \<open>MustCompile\<close>.
\<close>

definition pattern :: "string \<Rightarrow> string" where
  "pattern k = ''(?im)^(.*'' @ [backslash, CHR ''b''] @ QuoteMeta k @ ''.*)$''"

fun compileKeywords ::
  "keywordType list \<Rightarrow> (string \<times> keywordRegexType) list \<Rightarrow>
   (string \<times> keywordRegexType) list option" where
  "compileKeywords [] keywordsRegex = Some keywordsRegex"
| "compileKeywords (k # ks) keywordsRegex =
     (case MustCompile (pattern (Keyword k)) of
        None \<Rightarrow> None
      | Some re \<Rightarrow>
          compileKeywords ks
            (AList.update (Keyword k) \<lparr>regexp = Some re, exceptions = Exceptions k\<rparr> keywordsRegex))"

text \<open>The matching engine as the program runs it: the patterns of a configuration,
  compiled at startup, applied to a body.\<close>

definition evaluate ::
  "keywordType list \<Rightarrow> string \<Rightarrow> (bool \<times> (string \<times> string) list) option" where
  "evaluate keywords body =
     (case compileKeywords keywords [] of
        None \<Rightarrow> None
      | Some keywordsRegex \<Rightarrow> checkKeywords keywordsRegex body)"

section \<open>The poll loop\<close>

text \<open>
  Instants and durations count nanoseconds, as \<open>time.Time\<close> and \<open>time.Duration\<close> do.
\<close>

type_synonym time = int
type_synonym duration = int

definition second :: duration where
  "second = 1000000000"

definition minute :: duration where
  "minute = 60 * second"

text \<open>A paste of the list. The type is declared outside \<open>main.go\<close>; \<open>Key\<close> is the field
  that \<open>main\<close> reads.\<close>

record paste =
  Key :: string

text \<open>
  The package-level variables that the loop reads, and \<open>world\<close> for everything else
  that the calls of the loop depend on and change: the network, the clock, the other
  goroutines.
\<close>

record 'w globals =
  lastCheck :: time
  terminate :: bool
  alredyChecked :: "(string \<times> time) list"
  world :: 'w

text \<open>
  What \<open>main\<close> does that another goroutine, the network or the clock can see, in the
  order it does it: its calls of the functions declared outside \<open>main.go\<close>, its sleeps,
  the errors it sends on \<open>chanError\<close> and the lines it logs. Debug output is left out.
\<close>

datatype event =
    CallFetchPasteList
  | CallFetch paste
  | CallSleep duration
  | ChanError string
  | CallSendPasteMessage paste
  | CallSendErrorMessage string
  | Log string

text \<open>
  The functions that \<open>main\<close> calls and \<open>main.go\<close> does not declare are parameters:
  each may read and change the globals, and an error is its message. A call takes time,
  so the change it makes includes what the signal handler did to \<open>terminate\<close>
  meanwhile. \<open>Now\<close> is \<open>time.Now()\<close>.
\<close>

record 'w environment =
  fetchPasteList :: "'w globals \<Rightarrow> (paste list \<times> string option) \<times> 'w globals"
  fetch :: "paste \<Rightarrow> 'w globals \<Rightarrow> string option \<times> 'w globals"
  Sleep :: "duration \<Rightarrow> 'w globals \<Rightarrow> 'w globals"
  Now :: "'w globals \<Rightarrow> time"

text \<open>\<open>fmt.Errorf("stage: %v", err)\<close> sent on \<open>chanError\<close> when \<open>err\<close> is not nil.\<close>

definition report :: "string \<Rightarrow> string option \<Rightarrow> event list" where
  "report stage err = (case err of None \<Rightarrow> [] | Some e \<Rightarrow> [ChanError (stage @ '': '' @ e)])"

text \<open>The loop over the pastes of one list (lines 178 to 192).\<close>

fun pollItems ::
  "'w environment \<Rightarrow> paste list \<Rightarrow> 'w globals \<times> event list \<Rightarrow> 'w globals \<times> event list" where
  "pollItems env [] (g, tr) = (g, tr)"
| "pollItems env (p # ps) (g, tr) =
     (if terminate g then (g, tr)
      else if map_of (alredyChecked g) (Key p) \<noteq> None then pollItems env ps (g, tr)
      else
        (case fetch env p g of
           (err, g1) \<Rightarrow>
             pollItems env ps
               (Sleep env second g1,
                tr @ [CallFetch p] @ report ''fetch'' err @ [CallSleep second])))"

text \<open>
  The sweep of \<open>alredyChecked\<close> (lines 196 to 201): every entry of the map is visited
  once, and an entry whose time is before the threshold is deleted when it is visited.
\<close>

fun expire_loop :: "time \<Rightarrow> (string \<times> time) list \<Rightarrow> (string \<times> time) list \<Rightarrow> (string \<times> time) list" where
  "expire_loop threshold [] m = m"
| "expire_loop threshold ((k, v) # kvs) m =
     expire_loop threshold kvs (if v < threshold then AList.delete k m else m)"

definition expire :: "time \<Rightarrow> (string \<times> time) list \<Rightarrow> (string \<times> time) list" where
  "expire threshold m = expire_loop threshold m m"

definition sweep :: "'w environment \<Rightarrow> 'w globals \<times> event list \<Rightarrow> 'w globals \<times> event list" where
  "sweep env s =
     (case s of (g, tr) \<Rightarrow>
        (g\<lparr>alredyChecked := expire (Now env g - 10 * minute) (alredyChecked g)\<rparr>, tr))"

text \<open>The wait for the rest of the minute (lines 167 to 171) and the fetch of the list
  (lines 173 to 176); the result is the list with the state after it.\<close>

definition waitMinute :: "'w environment \<Rightarrow> 'w globals \<times> event list \<Rightarrow> 'w globals \<times> event list" where
  "waitMinute env s =
     (case s of (g, tr) \<Rightarrow>
        (let sleepTime = lastCheck g + 1 * minute - Now env g in
         if sleepTime > 0 then (Sleep env sleepTime g, tr @ [CallSleep sleepTime]) else (g, tr)))"

definition listPastes ::
  "'w environment \<Rightarrow> 'w globals \<times> event list \<Rightarrow> paste list \<times> 'w globals \<times> event list" where
  "listPastes env s =
     (case s of (g, tr) \<Rightarrow>
        (case fetchPasteList env g of
           ((pastes, err), g1) \<Rightarrow>
             (pastes, g1, tr @ [CallFetchPasteList] @ report ''fetchPasteList'' err)))"

text \<open>One round of the loop of \<open>main\<close> after the test of \<open>terminate\<close> (lines 166 to
  201).\<close>

definition pollCycle :: "'w environment \<Rightarrow> 'w globals \<times> event list \<Rightarrow> 'w globals \<times> event list" where
  "pollCycle env s =
     (case listPastes env (waitMinute env s) of
        (pastes, s1) \<Rightarrow> sweep env (pollItems env pastes s1))"

text \<open>
  The loop of \<open>main\<close> (lines 161 to 202). It runs until \<open>terminate\<close> is set, which may
  be never; \<open>n\<close> bounds the rounds, and \<open>None\<close> says that the loop is still running
  after \<open>n\<close> rounds.
\<close>

fun pollLoop :: "nat \<Rightarrow> 'w environment \<Rightarrow> 'w globals \<times> event list \<Rightarrow> ('w globals \<times> event list) option" where
  "pollLoop 0 env s = None"
| "pollLoop (Suc n) env s =
     (if terminate (fst s) then Some s else pollLoop n env (pollCycle env s))"

section \<open>The workers of the two channels\<close>

text \<open>
  A worker is a \<open>range\<close> over its channel: it handles the values in the order they are
  received and ends when the channel is closed. The model runs it on the list of the
  values it receives. \<open>sendPasteMessage\<close> and \<open>sendErrorMessage\<close> are declared outside
  \<open>main.go\<close> and are parameters: a call reads and changes a world \<open>'w\<close> and returns
  the message of its error, if any.
\<close>

text \<open>The worker of \<open>chanOutput\<close> (lines 128 to 137).\<close>

fun outputWorker ::
  "(paste \<Rightarrow> 'w \<Rightarrow> string option \<times> 'w) \<Rightarrow> paste list \<Rightarrow> 'w \<times> event list \<Rightarrow> 'w \<times> event list" where
  "outputWorker sendPasteMessage [] (w, tr) = (w, tr)"
| "outputWorker sendPasteMessage (p # ps) (w, tr) =
     (case sendPasteMessage p w of
        (err, w1) \<Rightarrow>
          outputWorker sendPasteMessage ps
            (w1, tr @ [CallSendPasteMessage p] @ report ''sendPasteMessage'' err))"

text \<open>The worker of \<open>chanError\<close> (lines 139 to 150); \<open>mailonerror\<close> is
  \<open>config.Mailonerror\<close>.\<close>

fun errorWorker ::
  "bool \<Rightarrow> (string \<Rightarrow> 'w \<Rightarrow> string option \<times> 'w) \<Rightarrow> string list \<Rightarrow> 'w \<times> event list \<Rightarrow>
   'w \<times> event list" where
  "errorWorker mailonerror sendErrorMessage [] (w, tr) = (w, tr)"
| "errorWorker mailonerror sendErrorMessage (err # errs) (w, tr) =
     (if mailonerror then
        (case sendErrorMessage err w of
           (err2, w1) \<Rightarrow>
             errorWorker mailonerror sendErrorMessage errs
               (w1, tr @ [Log err, CallSendErrorMessage err] @
                    (case err2 of
                       None \<Rightarrow> []
                     | Some e \<Rightarrow> [Log (''ERROR on sending error mail: '' @ e)])))
      else errorWorker mailonerror sendErrorMessage errs (w, tr @ [Log err]))"

section \<open>The signal handler\<close>

text \<open>
  The goroutine of lines 117 to 123 is a \<open>range\<close> over \<open>chanSignal\<close> followed by
  \<open>cancel()\<close>. What it can observe of the channel is a value received or the channel
  closed; while neither happens it waits. The state is the flag \<open>terminate\<close> and whether
  the context has been cancelled.
\<close>

datatype recv = Received | Closed

record handler =
  terminateFlag :: bool
  cancelled :: bool

fun signalHandler :: "recv list \<Rightarrow> handler \<Rightarrow> handler" where
  "signalHandler [] h = h"
| "signalHandler (Received # rs) h = signalHandler rs (h\<lparr>terminateFlag := True\<rparr>)"
| "signalHandler (Closed # rs) h = h\<lparr>cancelled := True\<rparr>"

section \<open>The end of main\<close>

text \<open>
  After its loop \<open>main\<close> runs \<open>close(chanOutput)\<close>, \<open>wgOutput.Wait()\<close>,
  \<open>close(chanError)\<close>, \<open>wgError.Wait()\<close> (lines 204 to 207) and returns, while the two
  workers are still running. The three goroutines are a transition system. The channels
  have no buffer, so a send and its receive are one step.
\<close>

datatype main_pc = AtCloseOutput | AtWaitOutput | AtCloseError | AtWaitError | Returned

text \<open>
  The worker of \<open>chanOutput\<close> waits in its \<open>range\<close>, runs \<open>sendPasteMessage\<close>, waits
  to send an error on \<open>chanError\<close>, has ended (\<open>wgOutput.Done()\<close>), or has panicked
  because \<open>chanError\<close> was closed under its send.
\<close>

datatype output_pc = OutWaiting | OutSending | OutReporting | OutDone | OutPanic

datatype error_pc = ErrWaiting | ErrHandling | ErrDone

record shutdown =
  mainAt :: main_pc
  outputAt :: output_pc
  errorAt :: error_pc
  outputClosed :: bool
  errorClosed :: bool

text \<open>When the loop of \<open>main\<close> has ended, \<open>main\<close> sends no more; a worker may still be
  busy with a value it received before.\<close>

definition after_loop :: "shutdown \<Rightarrow> bool" where
  "after_loop s =
     (mainAt s = AtCloseOutput \<and> outputAt s \<in> {OutWaiting, OutSending, OutReporting} \<and>
      errorAt s \<in> {ErrWaiting, ErrHandling} \<and> \<not> outputClosed s \<and> \<not> errorClosed s)"

inductive step :: "shutdown \<Rightarrow> shutdown \<Rightarrow> bool" where
  close_output:
    "mainAt s = AtCloseOutput \<Longrightarrow> step s (s\<lparr>mainAt := AtWaitOutput, outputClosed := True\<rparr>)"
| wait_output:
    "mainAt s = AtWaitOutput \<Longrightarrow> outputAt s = OutDone \<Longrightarrow> step s (s\<lparr>mainAt := AtCloseError\<rparr>)"
| close_error:
    "mainAt s = AtCloseError \<Longrightarrow> step s (s\<lparr>mainAt := AtWaitError, errorClosed := True\<rparr>)"
| wait_error:
    "mainAt s = AtWaitError \<Longrightarrow> errorAt s = ErrDone \<Longrightarrow> step s (s\<lparr>mainAt := Returned\<rparr>)"
| output_range_ends:
    "outputAt s = OutWaiting \<Longrightarrow> outputClosed s \<Longrightarrow> step s (s\<lparr>outputAt := OutDone\<rparr>)"
| send_succeeds:
    "outputAt s = OutSending \<Longrightarrow> step s (s\<lparr>outputAt := OutWaiting\<rparr>)"
| send_fails:
    "outputAt s = OutSending \<Longrightarrow> step s (s\<lparr>outputAt := OutReporting\<rparr>)"
| report_received:
    "outputAt s = OutReporting \<Longrightarrow> errorAt s = ErrWaiting \<Longrightarrow> \<not> errorClosed s \<Longrightarrow>
     step s (s\<lparr>outputAt := OutWaiting, errorAt := ErrHandling\<rparr>)"
| report_on_closed:
    "outputAt s = OutReporting \<Longrightarrow> errorClosed s \<Longrightarrow> step s (s\<lparr>outputAt := OutPanic\<rparr>)"
| error_handled:
    "errorAt s = ErrHandling \<Longrightarrow> step s (s\<lparr>errorAt := ErrWaiting\<rparr>)"
| error_range_ends:
    "errorAt s = ErrWaiting \<Longrightarrow> errorClosed s \<Longrightarrow> step s (s\<lparr>errorAt := ErrDone\<rparr>)"

inductive reachable :: "shutdown \<Rightarrow> bool" where
  start: "after_loop s \<Longrightarrow> reachable s"
| next_step: "reachable s \<Longrightarrow> step s t \<Longrightarrow> reachable t"

section \<open>The notions of the specification\<close>

subsection \<open>Lines and delimited keywords\<close>

text \<open>The lines of a body: the pieces between its line feeds
  (\<open>strings.Split(body, "\n")\<close>).\<close>

fun split_lines :: "string \<Rightarrow> string list" where
  "split_lines [] = [[]]"
| "split_lines (c # cs) =
     (if c = NL then [] # split_lines cs
      else (case split_lines cs of [] \<Rightarrow> [[c]] | l # ls \<Rightarrow> (c # l) # ls))"

text \<open>\<open>HasPrefixFold s k\<close>: \<open>s\<close> starts with \<open>k\<close>, letters compared in either case.\<close>

fun HasPrefixFold :: "string \<Rightarrow> string \<Rightarrow> bool" where
  "HasPrefixFold s [] = True"
| "HasPrefixFold [] (x # xs) = False"
| "HasPrefixFold (c # cs) (x # xs) = (equalFold x c \<and> HasPrefixFold cs xs)"

text \<open>
  The words of the claims: a line contains the keyword \<open>K\<close> as a delimited substring
  when \<open>K\<close> stands in it, in any letter case, with no word character right before it
  and none right after it. \<open>delimited_in K left right\<close> looks for such a place in
  \<open>right\<close>, \<open>left\<close> being the text before it, last character first.
\<close>

fun delimited_in :: "string \<Rightarrow> string \<Rightarrow> string \<Rightarrow> bool" where
  "delimited_in K left [] =
     (\<not> wordBefore left \<and> HasPrefixFold [] K \<and> \<not> wordAfter (drop (length K) []))"
| "delimited_in K left (x # xs) =
     ((\<not> wordBefore left \<and> HasPrefixFold (x # xs) K \<and>
       \<not> wordAfter (drop (length K) (x # xs))) \<or>
      delimited_in K (x # left) xs)"

definition delimited :: "string \<Rightarrow> string \<Rightarrow> bool" where
  "delimited K l = delimited_in K [] l"

definition first_delimited_line :: "string \<Rightarrow> string \<Rightarrow> string option" where
  "first_delimited_line K body = find (delimited K) (split_lines body)"

text \<open>
  What the program has in the place of this notion is its pattern. The pattern of \<open>K\<close>
  matches a line when \<open>FindStringSubmatch\<close> finds a match in the line taken alone; the
  first matched line of a body is the first of its lines that the pattern matches.
\<close>

definition pattern_matches :: "string \<Rightarrow> string \<Rightarrow> bool" where
  "pattern_matches K l =
     (case MustCompile (pattern K) of
        None \<Rightarrow> False
      | Some re \<Rightarrow> FindStringSubmatch re l \<noteq> None)"

definition first_matched_line :: "string \<Rightarrow> string \<Rightarrow> string option" where
  "first_matched_line K body = find (pattern_matches K) (split_lines body)"

text \<open>The syntax tree of \<open>^(.*\bK.*)$\<close> under the flags \<open>i\<close> and \<open>m\<close>, with every
  character of \<open>K\<close> a literal.\<close>

definition keywordPattern :: "string \<Rightarrow> regex" where
  "keywordPattern K =
     concat_of [OpBeginLine,
       OpCapture 1 (concat_of ([OpStar OpAnyCharNotNL, OpWordBoundary] @
                               map (\<lambda>c. OpLiteral c True) K @ [OpStar OpAnyCharNotNL])),
       OpEndLine]"

text \<open>A keyword compiles when \<open>MustCompile\<close> does not panic on its pattern.\<close>

definition compiles :: "string \<Rightarrow> bool" where
  "compiles K = (MustCompile (pattern K) \<noteq> None)"

text \<open>A map of keywords as \<open>main\<close> fills it: the keys are distinct, as in every Go map,
  and every entry holds the pattern that \<open>MustCompile\<close> returned for its key.\<close>

definition compiled :: "(string \<times> keywordRegexType) list \<Rightarrow> bool" where
  "compiled keywordsRegex =
     (distinct (map fst keywordsRegex) \<and>
      list_all (\<lambda>(k, v). regexp v \<noteq> None \<and> regexp v = MustCompile (pattern k)) keywordsRegex)"

text \<open>The exceptions that a configuration gives a keyword: those of the last entry
  with this keyword, none if there is no such entry.\<close>

definition configured :: "keywordType list \<Rightarrow> string \<Rightarrow> string list option" where
  "configured cfg K = map_of (rev (map (\<lambda>c. (Keyword c, Exceptions c)) cfg)) K"

subsection \<open>Auxiliary notions of the proofs about matching\<close>








text \<open>The entry that \<open>main\<close> stores for an element of the configuration whose
  pattern compiles.\<close>

definition entry :: "keywordType \<Rightarrow> keywordRegexType" where
  "entry c = \<lparr>regexp = Some (keywordPattern (Keyword c)), exceptions = Exceptions c\<rparr>"

text \<open>\<open>ContainsFold s substr\<close>: \<open>s\<close> contains \<open>substr\<close> when the case of letters is
  ignored.\<close>

fun ContainsFold :: "string \<Rightarrow> string \<Rightarrow> bool" where
  "ContainsFold [] substr = HasPrefixFold [] substr"
| "ContainsFold (c # cs) substr = (HasPrefixFold (c # cs) substr \<or> ContainsFold cs substr)"

subsection \<open>The traces of the poll loop and of the workers\<close>

text \<open>
  The events of the loop over the pastes come in blocks: a fetch, the error it gave if
  any, and a sleep of one second.
\<close>

fun paced :: "event list \<Rightarrow> bool" where
  "paced [] = True"
| "paced (CallFetch p # CallSleep d # evs) = (d = second \<and> paced evs)"
| "paced (CallFetch p # ChanError e # CallSleep d # evs) = (d = second \<and> paced evs)"
| "paced evs = False"

text \<open>
  Modelled from the spec: \<open>fetchPasteList\<close> is not in \<open>main.go\<close>. The specification
  says of the list fetch that on any transport or decode failure the cycle continues
  with an empty item set: when \<open>fetchPasteList\<close> returns an error, it returns no pastes
  with it.
\<close>

definition failing_list_is_empty :: "'w environment \<Rightarrow> bool" where
  "failing_list_is_empty env =
     (\<forall>g pastes e g1. fetchPasteList env g = ((pastes, Some e), g1) \<longrightarrow> pastes = [])"

text \<open>What a trace holds of each kind of event, in order.\<close>

definition sentPastes :: "event list \<Rightarrow> paste list" where
  "sentPastes tr = concat (map (\<lambda>ev. case ev of CallSendPasteMessage p \<Rightarrow> [p] | _ \<Rightarrow> []) tr)"

definition chanErrors :: "event list \<Rightarrow> string list" where
  "chanErrors tr = concat (map (\<lambda>ev. case ev of ChanError e \<Rightarrow> [e] | _ \<Rightarrow> []) tr)"

definition mails :: "event list \<Rightarrow> string list" where
  "mails tr = concat (map (\<lambda>ev. case ev of CallSendErrorMessage e \<Rightarrow> [e] | _ \<Rightarrow> []) tr)"

definition logs :: "event list \<Rightarrow> string list" where
  "logs tr = concat (map (\<lambda>ev. case ev of Log e \<Rightarrow> [e] | _ \<Rightarrow> []) tr)"

text \<open>The results of the calls that a worker makes for the values it receives, in
  order, and the messages of those that failed.\<close>

fun sendResults :: "('a \<Rightarrow> 'w \<Rightarrow> string option \<times> 'w) \<Rightarrow> 'a list \<Rightarrow> 'w \<Rightarrow> string option list" where
  "sendResults send [] w = []"
| "sendResults send (x # xs) w = (case send x w of (err, w1) \<Rightarrow> err # sendResults send xs w1)"

definition failures :: "string option list \<Rightarrow> string list" where
  "failures rs = concat (map (\<lambda>r. case r of None \<Rightarrow> [] | Some e \<Rightarrow> [e]) rs)"

subsection \<open>The invariant of the end of main\<close>

definition shutdown_inv :: "shutdown \<Rightarrow> bool" where
  "shutdown_inv s =
     (outputAt s \<noteq> OutPanic \<and>
      (outputAt s = OutDone \<longrightarrow> outputClosed s) \<and>
      (errorAt s = ErrDone \<longrightarrow> errorClosed s) \<and>
      (case mainAt s of
         AtCloseOutput \<Rightarrow> \<not> outputClosed s \<and> \<not> errorClosed s
       | AtWaitOutput \<Rightarrow> outputClosed s \<and> \<not> errorClosed s
       | AtCloseError \<Rightarrow> outputClosed s \<and> \<not> errorClosed s \<and> outputAt s = OutDone
       | AtWaitError \<Rightarrow> outputClosed s \<and> errorClosed s \<and> outputAt s = OutDone
       | Returned \<Rightarrow> outputClosed s \<and> errorClosed s \<and> outputAt s = OutDone \<and> errorAt s = ErrDone))"

subsection \<open>Examples\<close>

text \<open>
  An environment whose world is the clock: a fetch records the key with the time of the
  clock, a sleep moves the clock on. \<open>failing_env\<close> is the same with a list fetch that
  fails.
\<close>

definition clock_env :: "time environment" where
  "clock_env =
     \<lparr>fetchPasteList = (\<lambda>g. (([\<lparr>Key = ''new''\<rparr>], None), g)),
      fetch = (\<lambda>p g. (None, g\<lparr>alredyChecked := AList.update (Key p) (world g) (alredyChecked g)\<rparr>)),
      Sleep = (\<lambda>d g. g\<lparr>world := world g + d\<rparr>),
      Now = world\<rparr>"

definition failing_env :: "time environment" where
  "failing_env = clock_env\<lparr>fetchPasteList := (\<lambda>g. (([], Some ''timeout''), g))\<rparr>"

definition globals_example :: "time globals" where
  "globals_example =
     \<lparr>lastCheck = 0, terminate = False,
      alredyChecked = [(''old'', 80 * minute), (''seen'', 95 * minute)],
      world = 100 * minute\<rparr>"

definition shutdown_example :: shutdown where
  "shutdown_example =
     \<lparr>mainAt = AtCloseOutput, outputAt = OutSending, errorAt = ErrWaiting,
      outputClosed = False, errorClosed = False\<rparr>"

definition shutdown_final :: shutdown where
  "shutdown_final =
     \<lparr>mainAt = Returned, outputAt = OutDone, errorAt = ErrDone,
      outputClosed = True, errorClosed = True\<rparr>"


section \<open>Valid UTF-8 and the quoting\<close>

lemma utf8_step_ascii:
  "(of_char c :: nat) < 128 \<Longrightarrow> utf8_step q c = (if q = AtRune then AtRune else Bad)"
  by (cases q) (simp_all add: utf8_step_def)

lemma utf8_step_Bad: "utf8_step Bad c = Bad"
  by (simp add: utf8_step_def)

lemma foldl_utf8_Bad: "foldl utf8_step Bad s = Bad"
  by (induction s) (simp_all add: utf8_step_Bad)

lemma foldl_utf8_ascii:
  "list_all (\<lambda>c. (of_char c :: nat) < 128) s \<Longrightarrow>
   foldl utf8_step q s = (if q = AtRune \<or> s = [] then q else Bad)"
proof (induction s arbitrary: q)
  case Nil
  show ?case by simp
next
  case (Cons c s)
  then have c: "(of_char c :: nat) < 128" and s: "list_all (\<lambda>c. (of_char c :: nat) < 128) s"
    by simp_all
  show ?case
    using Cons.IH[OF s, of "utf8_step q c"] utf8_step_ascii[OF c, of q]
    by (auto simp: foldl_utf8_Bad)
qed

lemma special_ascii: "special c \<Longrightarrow> (of_char c :: nat) < 128"
  by (auto simp: special_def backslash_def)

lemma foldl_utf8_QuoteMeta: "foldl utf8_step q (QuoteMeta k) = foldl utf8_step q k"
proof (induction k arbitrary: q)
  case Nil
  show ?case by simp
next
  case (Cons c k)
  show ?case
  proof (cases "special c")
    case False
    then show ?thesis by (simp add: Cons.IH)
  next
    case True
    have b: "(of_char backslash :: nat) < 128" by (simp add: backslash_def)
    have "utf8_step (utf8_step q backslash) c = utf8_step q c"
      using utf8_step_ascii[OF b, of q] utf8_step_ascii[OF special_ascii[OF True]]
      by (simp add: utf8_step_Bad)
    then show ?thesis using True by (simp add: Cons.IH)
  qed
qed

lemma ValidString_pattern: "ValidString (pattern k) = ValidString k"
proof -
  have p: "foldl utf8_step AtRune (''(?im)^(.*'' @ [backslash, CHR ''b''] @ rest) =
           foldl utf8_step AtRune rest" for rest
    by (simp add: utf8_step_def backslash_def)
  have s: "list_all (\<lambda>c. (of_char c :: nat) < 128) ''.*)$''" by simp
  have "foldl utf8_step AtRune (pattern k) =
        foldl utf8_step (foldl utf8_step AtRune k) ''.*)$''"
    unfolding pattern_def p by (simp only: foldl_append foldl_utf8_QuoteMeta)
  also have "\<dots> = (if foldl utf8_step AtRune k = AtRune then AtRune else Bad)"
    using foldl_utf8_ascii[OF s, of "foldl utf8_step AtRune k"] by simp
  finally show ?thesis unfolding ValidString_def by auto
qed

lemma ValidString_ascii:
  "list_all (\<lambda>c. (of_char c :: nat) < 128) s \<Longrightarrow> ValidString s"
  unfolding ValidString_def using foldl_utf8_ascii[of s AtRune] by simp

section \<open>Compiling the pattern of a keyword\<close>

lemma special_cases:
  "special c \<longleftrightarrow> c = CHR 0x5C \<or> c = CHR ''.'' \<or> c = CHR ''+'' \<or> c = CHR ''*'' \<or> c = CHR ''?'' \<or>
     c = CHR ''('' \<or> c = CHR '')'' \<or> c = CHR ''|'' \<or> c = CHR ''['' \<or> c = CHR '']'' \<or>
     c = CHR ''{'' \<or> c = CHR ''}'' \<or> c = CHR ''^'' \<or> c = CHR ''$''"
  by (auto simp: special_def backslash_def)

lemma parse_escaped:
  "special c \<Longrightarrow> parse fl ncap stack nodes (backslash # c # s) =
     parse fl ncap stack (OpLiteral c (FoldCase fl) # nodes) s"
  unfolding special_cases
  by (elim disjE) (simp_all add: backslash_def isAlnum_def)

lemma parse_plain:
  "\<not> special c \<Longrightarrow> parse fl ncap stack nodes (c # s) =
     parse fl ncap stack (OpLiteral c (FoldCase fl) # nodes) s"
  unfolding special_cases
  by (simp add: backslash_def)

lemma parse_QuoteMeta:
  "parse fl ncap stack nodes (QuoteMeta k @ s) =
     parse fl ncap stack (rev (map (\<lambda>c. OpLiteral c (FoldCase fl)) k) @ nodes) s"
proof (induction k arbitrary: nodes)
  case Nil
  show ?case by simp
next
  case (Cons c k)
  show ?case
  proof (cases "special c")
    case True
    then show ?thesis using Cons[of "OpLiteral c (FoldCase fl) # nodes"]
      by (simp add: parse_escaped del: parse.simps)
  next
    case False
    then show ?thesis using Cons[of "OpLiteral c (FoldCase fl) # nodes"]
      by (simp add: parse_plain del: parse.simps)
  qed
qed

lemma parse_pattern: "parse perl_flags 0 [] [] (pattern k) = Some (keywordPattern k)"
proof -
  let ?fl = "\<lparr>FoldCase = True, OneLine = False, DotNL = False\<rparr>"
  have 1: "parse perl_flags 0 [] [] (pattern k) =
           parse ?fl 1 [(?fl, 1, [OpBeginLine])] [OpWordBoundary, OpStar OpAnyCharNotNL] (QuoteMeta k @ ''.*)$'')"
    by (simp add: pattern_def perl_flags_def backslash_def)
  have 2: "parse ?fl 1 [(?fl, 1, [OpBeginLine])] (rev (map (\<lambda>c. OpLiteral c True) k) @ [OpWordBoundary, OpStar OpAnyCharNotNL]) ''.*)$''
     = Some (keywordPattern k)"
    by (simp add: keywordPattern_def backslash_def rev_map)
  show ?thesis
    unfolding 1 parse_QuoteMeta using 2 by simp
qed

lemma NumRunes_concat_of_Cons:
  "NumRunes (concat_of (r # rs)) = NumRunes r + NumRunes (concat_of rs)"
  by (cases rs) simp_all

lemma NumRunes_keywordPattern: "NumRunes (keywordPattern k) = countRunes k"
proof -
  have "NumRunes (concat_of (map (\<lambda>c. OpLiteral c True) k @ [OpStar OpAnyCharNotNL])) = countRunes k"
    by (induction k)
       (simp_all add: NumRunes_concat_of_Cons countRunes_def del: concat_of.simps(2,3))
  then show ?thesis
    unfolding keywordPattern_def
    by (simp add: NumRunes_concat_of_Cons del: concat_of.simps(2,3))
qed

lemma MustCompile_pattern:
  "MustCompile (pattern k) =
     (if ValidString k \<and> int (countRunes k) \<le> maxRunes then Some (keywordPattern k) else None)"
  by (simp add: MustCompile_def Compile_def ValidString_pattern parse_pattern
                NumRunes_keywordPattern)

lemma compiles_iff: "compiles k \<longleftrightarrow> ValidString k \<and> int (countRunes k) \<le> maxRunes"
  by (simp add: compiles_def MustCompile_pattern)


lemma compiles_ascii_short:
  "list_all (\<lambda>c. (of_char c :: nat) < 128) k \<Longrightarrow> int (length k) \<le> maxRunes \<Longrightarrow> compiles k"
proof -
  assume a: "list_all (\<lambda>c. (of_char c :: nat) < 128) k" and l: "int (length k) \<le> maxRunes"
  have "countRunes k \<le> length k" by (simp add: countRunes_def)
  with l have "int (countRunes k) \<le> maxRunes" by linarith
  with ValidString_ascii[OF a] show ?thesis by (simp add: compiles_iff)
qed

lemma too_large:
  "\<not> compiles (replicate 33554433 (CHR ''a''))"
proof -
  have "countRunes (replicate 33554433 (CHR ''a'')) = 33554433"
    by (simp add: countRunes_def isCont_def)
  then show ?thesis by (simp add: compiles_iff maxRunes_def)
qed

section \<open>The notions of the specification, said otherwise\<close>

text \<open>
  The recursive tests above are the usual notions: a prefix, a contiguous sublist, a
  place in the line where the keyword stands in any letter case.
\<close>

lemma HasPrefix_prefix: "HasPrefix s x \<longleftrightarrow> prefix x s"
  by (induction s x rule: HasPrefix.induct) auto

lemma Contains_sublist: "Contains s x \<longleftrightarrow> sublist x s"
proof (induction s)
  case Nil
  show ?case by simp
next
  case (Cons c cs)
  show ?case
    by (simp add: Cons HasPrefix_prefix del: HasPrefix.simps) (metis sublist_Cons_right)
qed

lemma checkExceptions_sublist: "checkExceptions s ex \<longleftrightarrow> (\<exists>x \<in> set ex. sublist x s)"
  by (induction ex) (auto simp: Contains_sublist)



lemma HasPrefixFold_iff:
  "HasPrefixFold s K \<longleftrightarrow> length K \<le> length s \<and> list_all2 equalFold K (take (length K) s)"
  by (induction s K rule: HasPrefixFold.induct) auto

section \<open>Matching the pattern of a keyword\<close>



























section \<open>Lines\<close>



section \<open>A keyword with a line feed matches no line\<close>


lemma equalFold_sym: "equalFold a b = equalFold b a"
  by (auto simp: equalFold_def)









section \<open>Delimited keywords\<close>

lemma delimited_in_iff:
  "delimited_in K left r \<longleftrightarrow>
   (\<exists>a b. r = a @ b \<and> HasPrefixFold b K \<and> \<not> wordBefore (rev a @ left) \<and>
          \<not> wordAfter (drop (length K) b))"
proof (induction r arbitrary: left)
  case Nil
  show ?case by auto
next
  case (Cons x xs)
  show ?case (is "?l \<longleftrightarrow> ?r")
  proof
    assume ?l
    then consider "\<not> wordBefore left \<and> HasPrefixFold (x # xs) K \<and>
                   \<not> wordAfter (drop (length K) (x # xs))"
      | "delimited_in K (x # left) xs" by auto
    then show ?r
    proof cases
      case 1
      then show ?thesis by (intro exI[of _ "[]"] exI[of _ "x # xs"]) simp
    next
      case 2
      then obtain a b where "xs = a @ b" "HasPrefixFold b K"
        "\<not> wordBefore (rev a @ x # left)" "\<not> wordAfter (drop (length K) b)"
        unfolding Cons.IH by blast
      then show ?thesis by (intro exI[of _ "x # a"] exI[of _ b]) simp
    qed
  next
    assume ?r
    then obtain a b where ab: "x # xs = a @ b" "HasPrefixFold b K"
      "\<not> wordBefore (rev a @ left)" "\<not> wordAfter (drop (length K) b)" by blast
    show ?l
    proof (cases a)
      case Nil
      then have "b = x # xs" using ab by simp
      then show ?thesis using ab Nil by auto
    next
      case (Cons y ys)
      then have "xs = ys @ b" "\<not> wordBefore (rev ys @ x # left)"
        using ab by auto
      then have "delimited_in K (x # left) xs" unfolding Cons.IH using ab(2,4) by blast
      then show ?thesis by simp
    qed
  qed
qed

lemma delimited_iff:
  "delimited K l \<longleftrightarrow>
   (\<exists>a b. l = a @ b \<and> HasPrefixFold b K \<and> \<not> wordBefore (rev a) \<and>
          \<not> wordAfter (drop (length K) b))"
  unfolding delimited_def delimited_in_iff by simp





section \<open>The loop of checkKeywords\<close>







section \<open>The loop of main over the keywords\<close>

lemma list_all_update:
  "list_all P al \<Longrightarrow> P (k, v) \<Longrightarrow> list_all P (AList.update k v al)"
  by (induction al) auto

lemma compileKeywords_result:
  "compileKeywords cfg kr0 =
     (if list_all (\<lambda>c. compiles (Keyword c)) cfg
      then Some (foldl (\<lambda>kr c. AList.update (Keyword c) (entry c) kr) kr0 cfg)
      else None)"
proof (induction cfg arbitrary: kr0)
  case Nil
  show ?case by simp
next
  case (Cons c cs)
  show ?case
  proof (cases "compiles (Keyword c)")
    case True
    then have "MustCompile (pattern (Keyword c)) = Some (keywordPattern (Keyword c))"
      by (simp add: compiles_def MustCompile_pattern split: if_splits)
    then show ?thesis using True by (simp add: Cons.IH entry_def)
  next
    case False
    then show ?thesis by (simp add: compiles_def)
  qed
qed

lemma configured_Cons:
  "configured (c # cs) K =
     (case configured cs K of
        Some ex \<Rightarrow> Some ex
      | None \<Rightarrow> if K = Keyword c then Some (Exceptions c) else None)"
  by (simp add: configured_def map_add_def split: option.splits)

lemma map_of_filled:
  "map_of (foldl (\<lambda>kr c. AList.update (Keyword c) (entry c) kr) kr0 cfg) K =
     (case configured cfg K of
        Some ex \<Rightarrow> Some \<lparr>regexp = Some (keywordPattern K), exceptions = ex\<rparr>
      | None \<Rightarrow> map_of kr0 K)"
proof (induction cfg arbitrary: kr0)
  case Nil
  show ?case by (simp add: configured_def)
next
  case (Cons c cs)
  show ?case
    by (simp add: Cons.IH configured_Cons split: option.splits)
       (simp add: entry_def AList.update_conv')
qed

lemma compiled_filled:
  assumes "compiled kr0" and "list_all (\<lambda>c. compiles (Keyword c)) cfg"
  shows "compiled (foldl (\<lambda>kr c. AList.update (Keyword c) (entry c) kr) kr0 cfg)"
  using assms
proof (induction cfg arbitrary: kr0)
  case Nil
  then show ?case by simp
next
  case (Cons c cs)
  then have "compiles (Keyword c)" by simp
  then have m: "MustCompile (pattern (Keyword c)) = Some (keywordPattern (Keyword c))"
    by (simp add: compiles_def MustCompile_pattern split: if_splits)
  have "compiled (AList.update (Keyword c) (entry c) kr0)"
    using Cons.prems(1) m unfolding compiled_def
    by (auto simp: distinct_update entry_def intro!: list_all_update)
  with Cons show ?case by simp
qed

lemma configured_member:
  "c \<in> set cfg \<Longrightarrow> \<exists>ex. configured cfg (Keyword c) = Some ex"
  by (induction cfg) (auto simp: configured_Cons split: option.splits)

lemma configured_distinct:
  "distinct (map Keyword cfg) \<Longrightarrow> c \<in> set cfg \<Longrightarrow>
   configured cfg (Keyword c) = Some (Exceptions c)"
proof (induction cfg)
  case Nil
  then show ?case by simp
next
  case (Cons d cfg)
  show ?case
  proof (cases "c \<in> set cfg")
    case True
    with Cons show ?thesis by (simp add: configured_Cons)
  next
    case False
    with Cons.prems have d: "c = d" by simp
    have "configured cfg (Keyword d) = None"
      using Cons.prems(1)
      by (auto simp: configured_def map_of_eq_None_iff image_image)
    with d show ?thesis by (simp add: configured_Cons)
  qed
qed

section \<open>White space and delimited lines\<close>

lemma TrimSpace_unicode:
  "TrimSpace ([CHR 0xC2, CHR 0xA0, CHR 0x09] @ ''a b'' @ [CHR 0xE2, CHR 0x80, CHR 0xA8, CHR 0x0D]) = ''a b''"
  by code_simp



section \<open>The claims about the matching engine\<close>

text \<open>
  Claim C8, amended. The quoting leaves no character of a keyword to be read as syntax:
  when the pattern that \<open>main\<close> builds from a keyword \<open>K\<close> compiles, the result is the
  tree of \<open>^(.*\bK.*)$\<close> with the flags \<open>i\<close> and \<open>m\<close>, in which every character of \<open>K\<close> is
  a literal that folds case, after a word boundary, inside the one capture that spans
  the line. The pattern compiles exactly when the keyword is valid UTF-8 and has no more
  characters than the parser of \<open>regexp/syntax\<close> allows in a pattern; otherwise
  \<open>MustCompile\<close> panics. So the loop of \<open>main\<close> over the keywords of a configuration
  panics when one of them does not compile, and otherwise fills the map with exactly the
  configured keywords, each with its pattern and with the exceptions of its last entry
  in the configuration.
\<close>

theorem compile_keyword_literal:
  "MustCompile (pattern k) =
     (if ValidString k \<and> int (countRunes k) \<le> maxRunes then Some (keywordPattern k) else None) \<and>
   (if list_all (\<lambda>c. compiles (Keyword c)) cfg
    then \<exists>keywordsRegex.
           compileKeywords cfg [] = Some keywordsRegex \<and> compiled keywordsRegex \<and>
           (\<forall>K. map_of keywordsRegex K =
                  map_option (\<lambda>ex. \<lparr>regexp = Some (keywordPattern K), exceptions = ex\<rparr>)
                    (configured cfg K)) \<and>
           (\<forall>c \<in> set cfg. \<exists>v. map_of keywordsRegex (Keyword c) = Some v \<and>
                  regexp v = Some (keywordPattern (Keyword c)) \<and>
                  (distinct (map Keyword cfg) \<longrightarrow> exceptions v = Exceptions c))
    else compileKeywords cfg [] = None)"
proof
  show "MustCompile (pattern k) =
     (if ValidString k \<and> int (countRunes k) \<le> maxRunes then Some (keywordPattern k) else None)"
    by (rule MustCompile_pattern)
next
  let ?kr = "foldl (\<lambda>kr c. AList.update (Keyword c) (entry c) kr) [] cfg"
  show "if list_all (\<lambda>c. compiles (Keyword c)) cfg
    then \<exists>keywordsRegex.
           compileKeywords cfg [] = Some keywordsRegex \<and> compiled keywordsRegex \<and>
           (\<forall>K. map_of keywordsRegex K =
                  map_option (\<lambda>ex. \<lparr>regexp = Some (keywordPattern K), exceptions = ex\<rparr>)
                    (configured cfg K)) \<and>
           (\<forall>c \<in> set cfg. \<exists>v. map_of keywordsRegex (Keyword c) = Some v \<and>
                  regexp v = Some (keywordPattern (Keyword c)) \<and>
                  (distinct (map Keyword cfg) \<longrightarrow> exceptions v = Exceptions c))
    else compileKeywords cfg [] = None"
  proof (cases "list_all (\<lambda>c. compiles (Keyword c)) cfg")
    case False
    then show ?thesis by (simp add: compileKeywords_result)
  next
    case True
    have 1: "compileKeywords cfg [] = Some ?kr"
      using True by (simp add: compileKeywords_result)
    have 2: "compiled ?kr"
      by (rule compiled_filled[OF _ True]) (simp add: compiled_def)
    have 3: "map_of ?kr K =
               map_option (\<lambda>ex. \<lparr>regexp = Some (keywordPattern K), exceptions = ex\<rparr>)
                 (configured cfg K)" for K
      by (simp add: map_of_filled split: option.splits)
    have 4: "\<exists>v. map_of ?kr (Keyword c) = Some v \<and>
                  regexp v = Some (keywordPattern (Keyword c)) \<and>
                  (distinct (map Keyword cfg) \<longrightarrow> exceptions v = Exceptions c)"
      if c: "c \<in> set cfg" for c
    proof -
      from configured_member[OF c] obtain ex where ex: "configured cfg (Keyword c) = Some ex"
        by blast
      have "distinct (map Keyword cfg) \<longrightarrow> ex = Exceptions c"
        using configured_distinct[OF _ c] ex by auto
      then show ?thesis unfolding 3 ex by simp
    qed
    from 1 2 3 4 True show ?thesis by auto
  qed
qed

theorem compile_keyword_literal_witness:
  "MustCompile (pattern ''a.b*[c]'') =
     Some (concat_of [OpBeginLine,
       OpCapture 1 (concat_of [OpStar OpAnyCharNotNL, OpWordBoundary,
         OpLiteral (CHR ''a'') True, OpLiteral (CHR ''.'') True, OpLiteral (CHR ''b'') True,
         OpLiteral (CHR ''*'') True, OpLiteral (CHR ''['') True, OpLiteral (CHR ''c'') True,
         OpLiteral (CHR '']'') True, OpStar OpAnyCharNotNL]),
       OpEndLine]) \<and>
   list_all (\<lambda>c. compiles (Keyword c))
     [\<lparr>Keyword = ''a.b*[c]'', Exceptions = []\<rparr>, \<lparr>Keyword = ''(x'', Exceptions = [''y'']\<rparr>] \<and>
   distinct (map Keyword
     [\<lparr>Keyword = ''a.b*[c]'', Exceptions = []\<rparr>, \<lparr>Keyword = ''(x'', Exceptions = [''y'']\<rparr>]) \<and>
   (\<exists>keywordsRegex.
      compileKeywords [\<lparr>Keyword = ''a.b*[c]'', Exceptions = []\<rparr>, \<lparr>Keyword = ''(x'', Exceptions = [''y'']\<rparr>] []
        = Some keywordsRegex \<and> compiled keywordsRegex \<and>
      map_of keywordsRegex ''(x'' =
        Some \<lparr>regexp = Some (keywordPattern ''(x''), exceptions = [''y'']\<rparr> \<and>
      map_of keywordsRegex ''x'' = None)"
proof -
  let ?cfg = "[\<lparr>Keyword = ''a.b*[c]'', Exceptions = []\<rparr>, \<lparr>Keyword = ''(x'', Exceptions = [''y'']\<rparr>]"
  have e: "keywordPattern ''a.b*[c]'' =
     concat_of [OpBeginLine,
       OpCapture 1 (concat_of [OpStar OpAnyCharNotNL, OpWordBoundary,
         OpLiteral (CHR ''a'') True, OpLiteral (CHR ''.'') True, OpLiteral (CHR ''b'') True,
         OpLiteral (CHR ''*'') True, OpLiteral (CHR ''['') True, OpLiteral (CHR ''c'') True,
         OpLiteral (CHR '']'') True, OpStar OpAnyCharNotNL]),
       OpEndLine]"
    by (simp add: keywordPattern_def)
  have v: "ValidString ''a.b*[c]'' \<and> int (countRunes ''a.b*[c]'') \<le> maxRunes"
    by code_simp
  have c: "list_all (\<lambda>c. compiles (Keyword c)) ?cfg"
    by code_simp
  have d: "distinct (map Keyword ?cfg)" by simp
  have f: "configured ?cfg ''(x'' = Some [''y''] \<and> configured ?cfg ''x'' = None"
    by (simp add: configured_def)
  from compile_keyword_literal[of "''a.b*[c]''" ?cfg] v c
  have 1: "MustCompile (pattern ''a.b*[c]'') = Some (keywordPattern ''a.b*[c]'')"
    and 2: "\<exists>keywordsRegex.
           compileKeywords ?cfg [] = Some keywordsRegex \<and> compiled keywordsRegex \<and>
           (\<forall>K. map_of keywordsRegex K =
                  map_option (\<lambda>ex. \<lparr>regexp = Some (keywordPattern K), exceptions = ex\<rparr>)
                    (configured ?cfg K))"
    by auto
  from 2 obtain kr where kr: "compileKeywords ?cfg [] = Some kr" "compiled kr"
    and m: "\<And>K. map_of kr K =
                  map_option (\<lambda>ex. \<lparr>regexp = Some (keywordPattern K), exceptions = ex\<rparr>)
                    (configured ?cfg K)" by blast
  have "map_of kr ''(x'' = Some \<lparr>regexp = Some (keywordPattern ''(x''), exceptions = [''y'']\<rparr>"
    and "map_of kr ''x'' = None"
    using m f by simp_all
  with kr 1 c d show ?thesis unfolding e by blast
qed

text \<open>
  Claim C8 as stated fails where it says that compilation never fails. The keyword of
  the one byte \<open>0xFF\<close> is not valid UTF-8, and the keyword of 33554433 letters \<open>a\<close> is
  valid UTF-8 and longer than the parser allows: on both \<open>MustCompile\<close> panics, and
  \<open>main\<close> with it. The first is a Go string that \<open>encoding/json\<close> never returns, since
  it replaces the bytes that are not UTF-8; the second can stand in a configuration.
\<close>

theorem keyword_does_not_compile:
  "\<not> ValidString [CHR 0xFF] \<and>
   MustCompile (pattern [CHR 0xFF]) = None \<and>
   compileKeywords [\<lparr>Keyword = [CHR 0xFF], Exceptions = []\<rparr>] [] = None \<and>
   ValidString (replicate 33554433 (CHR ''a'')) \<and>
   MustCompile (pattern (replicate 33554433 (CHR ''a''))) = None \<and>
   compileKeywords [\<lparr>Keyword = replicate 33554433 (CHR ''a''), Exceptions = []\<rparr>] [] = None"
proof -
  have 1: "\<not> ValidString [CHR 0xFF] \<and> MustCompile (pattern [CHR 0xFF]) = None \<and>
           compileKeywords [\<lparr>Keyword = [CHR 0xFF], Exceptions = []\<rparr>] [] = None"
    by code_simp
  have 2: "ValidString (replicate 33554433 (CHR ''a''))"
    by (rule ValidString_ascii) (simp add: list_all_iff)
  have 3: "MustCompile (pattern (replicate 33554433 (CHR ''a''))) = None"
    using too_large by (simp add: compiles_def)
  have 4: "compileKeywords [\<lparr>Keyword = replicate 33554433 (CHR ''a''), Exceptions = []\<rparr>] [] = None"
    using 3 by simp
  from 1 2 3 4 show ?thesis by blast
qed




text \<open>
  Claim C7. With the keyword \<open>password\<close> and the exception \<open>testpassword\<close>, the body
  \<open>user: admin\npassword: testpassword123\n\<close> gives no hit, and the body
  \<open>password: hunter2\n\<close> gives exactly the hit of \<open>password\<close> with the trimmed line
  \<open>password: hunter2\<close>.
\<close>

theorem scenario_password:
  "evaluate [\<lparr>Keyword = ''password'', Exceptions = [''testpassword'']\<rparr>]
     ''user: admin\<newline>password: testpassword123\<newline>'' = Some (False, []) \<and>
   evaluate [\<lparr>Keyword = ''password'', Exceptions = [''testpassword'']\<rparr>]
     ''password: hunter2\<newline>'' = Some (True, [(''password'', ''password: hunter2'')])"
  by code_simp

text \<open>
  Claim C10. Keywords match in any letter case, exceptions only in their own: the first
  line that contains the keyword \<open>password\<close>, which is also the first line that its
  pattern matches, contains the exception \<open>testpassword\<close> when case is ignored but not
  as it is written, and the hit is reported.
\<close>

theorem exception_case_sensitive:
  "first_delimited_line ''password'' ''PASSWORD: TestPassword123\<newline>'' = Some ''PASSWORD: TestPassword123'' \<and>
   first_matched_line ''password'' ''PASSWORD: TestPassword123\<newline>'' = Some ''PASSWORD: TestPassword123'' \<and>
   ContainsFold ''PASSWORD: TestPassword123'' ''testpassword'' \<and>
   \<not> Contains ''PASSWORD: TestPassword123'' ''testpassword'' \<and>
   evaluate [\<lparr>Keyword = ''password'', Exceptions = [''testpassword'']\<rparr>]
     ''PASSWORD: TestPassword123\<newline>'' = Some (True, [(''password'', ''PASSWORD: TestPassword123'')])"
  by code_simp


section \<open>The sweep of the cache\<close>

lemma expire_loop_filter:
  assumes "distinct (map fst kvs)"
  shows "expire_loop threshold kvs m =
         filter (\<lambda>(k, v). \<not> (\<exists>v'. (k, v') \<in> set kvs \<and> v' < threshold)) m"
  using assms
proof (induction kvs arbitrary: m)
  case Nil
  show ?case by simp
next
  case (Cons kv kvs)
  obtain k v where kv: "kv = (k, v)" by (cases kv)
  from Cons.prems have d: "distinct (map fst kvs)" and fresh: "\<And>v'. (k, v') \<notin> set kvs"
    by (auto simp: kv intro: rev_image_eqI)
  show ?case
  proof (cases "v < threshold")
    case True
    have "expire_loop threshold (kv # kvs) m = expire_loop threshold kvs (AList.delete k m)"
      using True by (simp add: kv)
    also have "\<dots> = filter (\<lambda>(k, v). \<not> (\<exists>v'. (k, v') \<in> set kvs \<and> v' < threshold)) (AList.delete k m)"
      by (rule Cons.IH[OF d])
    also have "\<dots> = filter (\<lambda>(k, v). \<not> (\<exists>v'. (k, v') \<in> set (kv # kvs) \<and> v' < threshold)) m"
      using True by (induction m) (auto simp: kv)
    finally show ?thesis .
  next
    case False
    have "expire_loop threshold (kv # kvs) m = expire_loop threshold kvs m"
      using False by (simp add: kv)
    also have "\<dots> = filter (\<lambda>(k, v). \<not> (\<exists>v'. (k, v') \<in> set kvs \<and> v' < threshold)) m"
      by (rule Cons.IH[OF d])
    also have "\<dots> = filter (\<lambda>(k, v). \<not> (\<exists>v'. (k, v') \<in> set (kv # kvs) \<and> v' < threshold)) m"
      using False by (intro filter_cong) (auto simp: kv)
    finally show ?thesis .
  qed
qed

lemma expire_filter:
  assumes "distinct (map fst m)"
  shows "expire threshold m = filter (\<lambda>(k, v). \<not> v < threshold) m"
proof -
  have u: "\<And>k v v'. (k, v) \<in> set m \<Longrightarrow> (k, v') \<in> set m \<Longrightarrow> v = v'"
    using assms by (metis map_of_eq_Some_iff option.inject)
  have "\<And>k v. (k, v) \<in> set m \<Longrightarrow> (\<exists>v'. (k, v') \<in> set m \<and> v' < threshold) \<longleftrightarrow> v < threshold"
    using u by blast
  then show ?thesis
    unfolding expire_def expire_loop_filter[OF assms]
    by (intro filter_cong) auto
qed

lemma map_of_filter_distinct:
  assumes "distinct (map fst m)"
  shows "map_of (filter (\<lambda>(k, v). P v) m) k =
         (case map_of m k of None \<Rightarrow> None | Some v \<Rightarrow> if P v then Some v else None)"
  using assms
proof (induction m)
  case Nil
  show ?case by simp
next
  case (Cons kv m)
  obtain k' v' where kv: "kv = (k', v')" by (cases kv)
  from Cons.prems have "map_of m k' = None" by (auto simp: kv map_of_eq_None_iff)
  moreover have "map_of (filter (\<lambda>(k, v). P v) m) k' = None"
    using Cons.prems by (auto simp: kv map_of_eq_None_iff intro: rev_image_eqI)
  ultimately show ?case using Cons by (auto simp: kv)
qed

section \<open>The loop over the pastes\<close>

lemma paced_block:
  "paced evs \<Longrightarrow> paced (CallFetch p # report ''fetch'' err @ CallSleep second # evs)"
  by (cases err) (simp_all add: report_def)

lemma pollItems_trace:
  "\<exists>evs. snd (pollItems env ps (g, tr)) = tr @ evs \<and> paced evs"
proof (induction ps arbitrary: g tr)
  case Nil
  show ?case by simp
next
  case (Cons p ps)
  show ?case
  proof (cases "terminate g \<or> map_of (alredyChecked g) (Key p) \<noteq> None")
    case True
    then show ?thesis using Cons.IH[of g tr] by auto
  next
    case False
    obtain err g1 where f: "fetch env p g = (err, g1)" by (cases "fetch env p g")
    let ?block = "[CallFetch p] @ report ''fetch'' err @ [CallSleep second]"
    from Cons.IH[of "Sleep env second g1" "tr @ ?block"] obtain evs where
      e: "snd (pollItems env ps (Sleep env second g1, tr @ ?block)) = (tr @ ?block) @ evs"
      and p: "paced evs" by blast
    have "snd (pollItems env (p # ps) (g, tr)) = tr @ (?block @ evs)"
      using False f e by simp
    moreover have "paced (?block @ evs)" using paced_block[OF p] by simp
    ultimately show ?thesis by blast
  qed
qed

lemma pollItems_all_seen:
  "list_all (\<lambda>p. map_of (alredyChecked g) (Key p) \<noteq> None) ps \<Longrightarrow>
   pollItems env ps (g, tr) = (g, tr)"
  by (induction ps) auto

section \<open>The workers\<close>

lemma outputWorker_events:
  "sentPastes (snd (outputWorker send ps (w, tr))) = sentPastes tr @ ps \<and>
   chanErrors (snd (outputWorker send ps (w, tr))) =
     chanErrors tr @ map (\<lambda>e. ''sendPasteMessage: '' @ e) (failures (sendResults send ps w)) \<and>
   mails (snd (outputWorker send ps (w, tr))) = mails tr \<and>
   logs (snd (outputWorker send ps (w, tr))) = logs tr"
proof (induction ps arbitrary: w tr)
  case Nil
  show ?case by (simp add: failures_def)
next
  case (Cons p ps)
  obtain err w1 where s: "send p w = (err, w1)" by (cases "send p w")
  show ?case
    using Cons.IH[of w1 "tr @ [CallSendPasteMessage p] @ report ''sendPasteMessage'' err"]
    by (cases err)
       (simp_all add: s sentPastes_def chanErrors_def mails_def logs_def failures_def report_def)
qed

lemma errorWorker_events:
  "chanErrors (snd (errorWorker m mail errs (w, tr))) = chanErrors tr \<and>
   sentPastes (snd (errorWorker m mail errs (w, tr))) = sentPastes tr \<and>
   mails (snd (errorWorker m mail errs (w, tr))) = mails tr @ (if m then errs else []) \<and>
   (\<exists>ls. logs (snd (errorWorker m mail errs (w, tr))) = logs tr @ ls \<and> subseq errs ls \<and>
         length ls = length errs + (if m then length (failures (sendResults mail errs w)) else 0))"
proof (induction errs arbitrary: w tr)
  case Nil
  show ?case by (simp add: failures_def)
next
  case (Cons err errs)
  show ?case
  proof (cases m)
    case False
    from Cons.IH[of w "tr @ [Log err]"] obtain ls where
      1: "chanErrors (snd (errorWorker m mail errs (w, tr @ [Log err]))) = chanErrors (tr @ [Log err])"
      and 2: "sentPastes (snd (errorWorker m mail errs (w, tr @ [Log err]))) = sentPastes (tr @ [Log err])"
      and 3: "mails (snd (errorWorker m mail errs (w, tr @ [Log err]))) = mails (tr @ [Log err]) @ (if m then errs else [])"
      and 4: "logs (snd (errorWorker m mail errs (w, tr @ [Log err]))) = logs (tr @ [Log err]) @ ls"
      and 5: "subseq errs ls"
      and 6: "length ls = length errs + (if m then length (failures (sendResults mail errs w)) else 0)"
      by blast
    have "logs (snd (errorWorker m mail (err # errs) (w, tr))) = logs tr @ (err # ls)"
      using False 4 by (simp add: logs_def)
    moreover have "subseq (err # errs) (err # ls)" using 5 by simp
    moreover have "length (err # ls) = length (err # errs) + (if m then length (failures (sendResults mail (err # errs) w)) else 0)"
      using False 6 by simp
    ultimately show ?thesis using False 1 2 3
      by (auto simp: chanErrors_def sentPastes_def mails_def)
  next
    case True
    obtain err2 w1 where s: "mail err w = (err2, w1)" by (cases "mail err w")
    let ?extra = "case err2 of None \<Rightarrow> [] | Some e \<Rightarrow> [''ERROR on sending error mail: '' @ e]"
    let ?tr = "tr @ [Log err, CallSendErrorMessage err] @
                    (case err2 of None \<Rightarrow> [] | Some e \<Rightarrow> [Log (''ERROR on sending error mail: '' @ e)])"
    from Cons.IH[of w1 ?tr] obtain ls where
      1: "chanErrors (snd (errorWorker m mail errs (w1, ?tr))) = chanErrors ?tr"
      and 2: "sentPastes (snd (errorWorker m mail errs (w1, ?tr))) = sentPastes ?tr"
      and 3: "mails (snd (errorWorker m mail errs (w1, ?tr))) = mails ?tr @ (if m then errs else [])"
      and 4: "logs (snd (errorWorker m mail errs (w1, ?tr))) = logs ?tr @ ls"
      and 5: "subseq errs ls"
      and 6: "length ls = length errs + (if m then length (failures (sendResults mail errs w1)) else 0)"
      by blast
    have e: "errorWorker m mail (err # errs) (w, tr) = errorWorker m mail errs (w1, ?tr)"
      using True s by simp
    have l: "logs ?tr = logs tr @ err # ?extra"
      by (cases err2) (simp_all add: logs_def)
    have "logs (snd (errorWorker m mail (err # errs) (w, tr))) = logs tr @ (err # ?extra @ ls)"
      unfolding e 4 l by simp
    moreover have "subseq (err # errs) (err # ?extra @ ls)"
      using 5 by (cases err2) (auto intro: list_emb_Cons)
    moreover have "length (err # ?extra @ ls) =
        length (err # errs) + (if m then length (failures (sendResults mail (err # errs) w)) else 0)"
      using True 6 s by (cases err2) (simp_all add: failures_def)
    moreover have "chanErrors ?tr = chanErrors tr" "sentPastes ?tr = sentPastes tr"
        "mails ?tr = mails tr @ [err]"
      by (cases err2; simp add: chanErrors_def sentPastes_def mails_def)+
    ultimately show ?thesis unfolding e using True 1 2 3 by auto
  qed
qed

section \<open>The end of main\<close>

lemma after_loop_inv: "after_loop s \<Longrightarrow> shutdown_inv s"
  by (auto simp: after_loop_def shutdown_inv_def)

lemma step_inv: "step s t \<Longrightarrow> shutdown_inv s \<Longrightarrow> shutdown_inv t"
  by (induction rule: step.induct) (auto simp: shutdown_inv_def split: main_pc.splits)

lemma reachable_inv: "reachable s \<Longrightarrow> shutdown_inv s"
  by (induction rule: reachable.induct) (auto intro: after_loop_inv step_inv)

lemma inv_progress:
  assumes "shutdown_inv s" and "mainAt s \<noteq> Returned"
  shows "\<exists>t. step s t"
proof (cases "mainAt s")
  case AtCloseOutput
  then show ?thesis by (blast intro: step.close_output)
next
  case AtCloseError
  then show ?thesis by (blast intro: step.close_error)
next
  case Returned
  with assms show ?thesis by simp
next
  case AtWaitError
  show ?thesis
  proof (cases "errorAt s")
    case ErrWaiting
    then show ?thesis using AtWaitError assms(1)
      by (auto simp: shutdown_inv_def intro: step.error_range_ends)
  next
    case ErrHandling
    then show ?thesis by (blast intro: step.error_handled)
  next
    case ErrDone
    then show ?thesis using AtWaitError by (blast intro: step.wait_error)
  qed
next
  case AtWaitOutput
  then have c: "outputClosed s" "\<not> errorClosed s"
    using assms(1) by (auto simp: shutdown_inv_def)
  show ?thesis
  proof (cases "outputAt s")
    case OutWaiting
    then show ?thesis using c by (blast intro: step.output_range_ends)
  next
    case OutSending
    then show ?thesis by (blast intro: step.send_succeeds)
  next
    case OutReporting
    show ?thesis
    proof (cases "errorAt s")
      case ErrWaiting
      then show ?thesis using OutReporting c by (blast intro: step.report_received)
    next
      case ErrHandling
      then show ?thesis by (blast intro: step.error_handled)
    next
      case ErrDone
      then show ?thesis using c assms(1) by (auto simp: shutdown_inv_def)
    qed
  next
    case OutDone
    then show ?thesis using AtWaitOutput by (blast intro: step.wait_output)
  next
    case OutPanic
    then show ?thesis using assms(1) by (simp add: shutdown_inv_def)
  qed
qed

lemma signalHandler_Received:
  "cancelled (signalHandler (replicate n Received) h) = cancelled h \<and>
   terminateFlag (signalHandler (replicate n Received) h) = (terminateFlag h \<or> 0 < n)"
  by (induction n arbitrary: h) auto

lemma shutdown_example_run: "reachable shutdown_final"
proof -
  let ?s0 = shutdown_example
  have r0: "reachable ?s0" by (rule reachable.start) (simp add: after_loop_def shutdown_example_def)
  let ?s1 = "?s0\<lparr>mainAt := AtWaitOutput, outputClosed := True\<rparr>"
  have r1: "reachable ?s1"
    by (rule reachable.next_step[OF r0]) (rule step.close_output, simp add: shutdown_example_def)
  let ?s2 = "?s1\<lparr>outputAt := OutReporting\<rparr>"
  have r2: "reachable ?s2"
    by (rule reachable.next_step[OF r1]) (rule step.send_fails, simp add: shutdown_example_def)
  let ?s3 = "?s2\<lparr>outputAt := OutWaiting, errorAt := ErrHandling\<rparr>"
  have r3: "reachable ?s3"
    by (rule reachable.next_step[OF r2]) (rule step.report_received, simp_all add: shutdown_example_def)
  let ?s4 = "?s3\<lparr>errorAt := ErrWaiting\<rparr>"
  have r4: "reachable ?s4"
    by (rule reachable.next_step[OF r3]) (rule step.error_handled, simp add: shutdown_example_def)
  let ?s5 = "?s4\<lparr>outputAt := OutDone\<rparr>"
  have r5: "reachable ?s5"
    by (rule reachable.next_step[OF r4]) (rule step.output_range_ends, simp_all add: shutdown_example_def)
  let ?s6 = "?s5\<lparr>mainAt := AtCloseError\<rparr>"
  have r6: "reachable ?s6"
    by (rule reachable.next_step[OF r5]) (rule step.wait_output, simp_all add: shutdown_example_def)
  let ?s7 = "?s6\<lparr>mainAt := AtWaitError, errorClosed := True\<rparr>"
  have r7: "reachable ?s7"
    by (rule reachable.next_step[OF r6]) (rule step.close_error, simp add: shutdown_example_def)
  let ?s8 = "?s7\<lparr>errorAt := ErrDone\<rparr>"
  have r8: "reachable ?s8"
    by (rule reachable.next_step[OF r7]) (rule step.error_range_ends, simp_all add: shutdown_example_def)
  let ?s9 = "?s8\<lparr>mainAt := Returned\<rparr>"
  have r9: "reachable ?s9"
    by (rule reachable.next_step[OF r8]) (rule step.wait_error, simp_all add: shutdown_example_def)
  have "?s9 = shutdown_final" by (simp add: shutdown_example_def shutdown_final_def)
  with r9 show ?thesis by simp
qed

section \<open>The claims about the poll loop\<close>

text \<open>
  Claim C3. A paste whose key is in \<open>alredyChecked\<close> when the loop reaches it is skipped:
  the loop goes on with the same state and the same trace, so without a fetch and
  without a sleep. A paste whose key is not in the map, reached while \<open>terminate\<close> is
  not set, is fetched, and the sleep of one second follows whether the fetch returned an
  error (which is then sent on \<open>chanError\<close>) or not. A list of pastes that are all in the
  map leaves state and trace as they are, and the events of every run of the loop are
  blocks of a fetch, its error if any, and a sleep of one second.
\<close>

theorem pollItems_skips_seen:
  "(map_of (alredyChecked g) (Key p) \<noteq> None \<longrightarrow>
      pollItems env (p # ps) (g, tr) = pollItems env ps (g, tr)) \<and>
   (\<not> terminate g \<and> map_of (alredyChecked g) (Key p) = None \<longrightarrow>
      pollItems env (p # ps) (g, tr) =
        pollItems env ps
          (Sleep env second (snd (fetch env p g)),
           tr @ [CallFetch p] @ report ''fetch'' (fst (fetch env p g)) @ [CallSleep second])) \<and>
   (list_all (\<lambda>p. map_of (alredyChecked g) (Key p) \<noteq> None) ps \<longrightarrow>
      pollItems env ps (g, tr) = (g, tr)) \<and>
   (\<exists>evs. snd (pollItems env ps (g, tr)) = tr @ evs \<and> paced evs)"
proof (intro conjI impI)
  assume "map_of (alredyChecked g) (Key p) \<noteq> None"
  then show "pollItems env (p # ps) (g, tr) = pollItems env ps (g, tr)"
    by (cases ps) auto
next
  assume "\<not> terminate g \<and> map_of (alredyChecked g) (Key p) = None"
  then show "pollItems env (p # ps) (g, tr) =
        pollItems env ps
          (Sleep env second (snd (fetch env p g)),
           tr @ [CallFetch p] @ report ''fetch'' (fst (fetch env p g)) @ [CallSleep second])"
    by (simp add: case_prod_unfold)
next
  assume "list_all (\<lambda>p. map_of (alredyChecked g) (Key p) \<noteq> None) ps"
  then show "pollItems env ps (g, tr) = (g, tr)" by (rule pollItems_all_seen)
next
  show "\<exists>evs. snd (pollItems env ps (g, tr)) = tr @ evs \<and> paced evs"
    by (rule pollItems_trace)
qed

theorem pollItems_skips_seen_witness:
  "map_of (alredyChecked globals_example) (Key \<lparr>Key = ''seen''\<rparr>) \<noteq> None \<and>
   pollItems clock_env [\<lparr>Key = ''seen''\<rparr>, \<lparr>Key = ''new''\<rparr>] (globals_example, []) =
     pollItems clock_env [\<lparr>Key = ''new''\<rparr>] (globals_example, []) \<and>
   \<not> terminate globals_example \<and>
   map_of (alredyChecked globals_example) (Key \<lparr>Key = ''new''\<rparr>) = None \<and>
   snd (pollItems clock_env [\<lparr>Key = ''new''\<rparr>] (globals_example, [])) =
     [CallFetch \<lparr>Key = ''new''\<rparr>, CallSleep second] \<and>
   list_all (\<lambda>p. map_of (alredyChecked globals_example) (Key p) \<noteq> None)
     [\<lparr>Key = ''seen''\<rparr>, \<lparr>Key = ''old''\<rparr>] \<and>
   pollItems clock_env [\<lparr>Key = ''seen''\<rparr>, \<lparr>Key = ''old''\<rparr>] (globals_example, []) =
     (globals_example, [])"
proof -
  have 1: "map_of (alredyChecked globals_example) (Key \<lparr>Key = ''seen''\<rparr>) \<noteq> None"
    by (simp add: globals_example_def)
  have 2: "\<not> terminate globals_example \<and>
           map_of (alredyChecked globals_example) (Key \<lparr>Key = ''new''\<rparr>) = None"
    by (simp add: globals_example_def)
  have 3: "list_all (\<lambda>p. map_of (alredyChecked globals_example) (Key p) \<noteq> None)
     [\<lparr>Key = ''seen''\<rparr>, \<lparr>Key = ''old''\<rparr>]"
    by (simp add: globals_example_def)
  have f: "fst (fetch clock_env \<lparr>Key = ''new''\<rparr> globals_example) = None"
    by (simp add: clock_env_def)
  note t1 = pollItems_skips_seen[of globals_example "\<lparr>Key = ''seen''\<rparr>" clock_env
              "[\<lparr>Key = ''new''\<rparr>]" "[]"]
  note t2 = pollItems_skips_seen[of globals_example "\<lparr>Key = ''new''\<rparr>" clock_env "[]" "[]"]
  note t3 = pollItems_skips_seen[of globals_example "\<lparr>Key = ''seen''\<rparr>" clock_env
              "[\<lparr>Key = ''seen''\<rparr>, \<lparr>Key = ''old''\<rparr>]" "[]"]
  have a: "pollItems clock_env [\<lparr>Key = ''seen''\<rparr>, \<lparr>Key = ''new''\<rparr>] (globals_example, []) =
     pollItems clock_env [\<lparr>Key = ''new''\<rparr>] (globals_example, [])"
    using t1 1 by blast
  have b: "snd (pollItems clock_env [\<lparr>Key = ''new''\<rparr>] (globals_example, [])) =
     [CallFetch \<lparr>Key = ''new''\<rparr>, CallSleep second]"
    using t2 2 f by (simp add: report_def)
  have c: "pollItems clock_env [\<lparr>Key = ''seen''\<rparr>, \<lparr>Key = ''old''\<rparr>] (globals_example, []) =
     (globals_example, [])"
    using t3 3 by blast
  from 1 2 3 a b c show ?thesis by blast
qed

text \<open>
  Claim C4. Every round of the loop of \<open>main\<close> ends with the sweep, and the sweep removes
  from \<open>alredyChecked\<close> exactly the entries whose time is before the time of the clock
  minus ten minutes: what is left are the other entries, unchanged and in place; a key
  whose entry was older is no longer in the map, a key whose entry was not keeps its
  time. The sweep does nothing else.
\<close>

theorem sweep_removes_expired:
  assumes "distinct (map fst (alredyChecked g))"
  shows "alredyChecked (fst (sweep env (g, tr))) =
           filter (\<lambda>(k, t). \<not> t < Now env g - 10 * minute) (alredyChecked g) \<and>
         (\<forall>k. map_of (alredyChecked (fst (sweep env (g, tr)))) k =
            (case map_of (alredyChecked g) k of
               None \<Rightarrow> None
             | Some t \<Rightarrow> if t < Now env g - 10 * minute then None else Some t)) \<and>
         snd (sweep env (g, tr)) = tr \<and>
         pollCycle env (g, tr) =
           sweep env (pollItems env (fst (listPastes env (waitMinute env (g, tr))))
                                    (snd (listPastes env (waitMinute env (g, tr)))))"
proof -
  have 1: "alredyChecked (fst (sweep env (g, tr))) =
           filter (\<lambda>(k, t). \<not> t < Now env g - 10 * minute) (alredyChecked g)"
    by (simp add: sweep_def expire_filter[OF assms])
  have 2: "\<forall>k. map_of (alredyChecked (fst (sweep env (g, tr)))) k =
            (case map_of (alredyChecked g) k of
               None \<Rightarrow> None
             | Some t \<Rightarrow> if t < Now env g - 10 * minute then None else Some t)"
    unfolding 1 using map_of_filter_distinct[OF assms, of "\<lambda>t. \<not> t < Now env g - 10 * minute"]
    by (auto split: option.splits)
  have 3: "snd (sweep env (g, tr)) = tr" by (simp add: sweep_def)
  have 4: "pollCycle env (g, tr) =
           sweep env (pollItems env (fst (listPastes env (waitMinute env (g, tr))))
                                    (snd (listPastes env (waitMinute env (g, tr)))))"
    by (simp add: pollCycle_def case_prod_unfold)
  from 1 2 3 4 show ?thesis by blast
qed

theorem sweep_removes_expired_witness:
  "distinct (map fst (alredyChecked globals_example)) \<and>
   alredyChecked globals_example = [(''old'', 80 * minute), (''seen'', 95 * minute)] \<and>
   Now clock_env globals_example - 10 * minute = 90 * minute \<and>
   alredyChecked (fst (sweep clock_env (globals_example, []))) = [(''seen'', 95 * minute)]"
proof -
  have d: "distinct (map fst (alredyChecked globals_example))"
    by (simp add: globals_example_def)
  have n: "Now clock_env globals_example - 10 * minute = 90 * minute"
    by (simp add: clock_env_def globals_example_def)
  have "alredyChecked (fst (sweep clock_env (globals_example, []))) =
        filter (\<lambda>(k, t). \<not> t < 90 * minute) (alredyChecked globals_example)"
    using sweep_removes_expired[OF d, of clock_env "[]"] unfolding n by blast
  then have "alredyChecked (fst (sweep clock_env (globals_example, []))) = [(''seen'', 95 * minute)]"
    by (simp add: globals_example_def minute_def second_def)
  with d n show ?thesis by (simp add: globals_example_def)
qed

text \<open>
  Claim C5. In a round in which the list fetch fails, the error is sent on \<open>chanError\<close>
  with the prefix \<open>fetchPasteList\<close>, no paste is fetched, the sweep runs on the state the
  list fetch left, and the loop goes on to its next test of \<open>terminate\<close>.
\<close>

theorem failed_list_fetch:
  assumes "failing_list_is_empty env"
      and "\<not> terminate g"
      and "waitMinute env (g, tr) = (g1, tr1)"
      and "fetchPasteList env g1 = ((pastes, Some e), g2)"
  shows "pollCycle env (g, tr) =
           sweep env (g2, tr1 @ [CallFetchPasteList, ChanError (''fetchPasteList: '' @ e)]) \<and>
         pollLoop (Suc n) env (g, tr) =
           pollLoop n env (sweep env (g2, tr1 @ [CallFetchPasteList, ChanError (''fetchPasteList: '' @ e)]))"
proof -
  from assms(1,4) have "pastes = []" unfolding failing_list_is_empty_def by blast
  then have c: "pollCycle env (g, tr) =
           sweep env (g2, tr1 @ [CallFetchPasteList, ChanError (''fetchPasteList: '' @ e)])"
    using assms(3,4) by (simp add: pollCycle_def listPastes_def report_def)
  then show ?thesis using assms(2) by simp
qed

theorem failed_list_fetch_witness:
  "failing_list_is_empty failing_env \<and> \<not> terminate globals_example \<and>
   waitMinute failing_env (globals_example, []) = (globals_example, []) \<and>
   fetchPasteList failing_env globals_example = (([], Some ''timeout''), globals_example) \<and>
   pollCycle failing_env (globals_example, []) =
     (globals_example\<lparr>alredyChecked := [(''seen'', 95 * minute)]\<rparr>,
      [CallFetchPasteList, ChanError ''fetchPasteList: timeout''])"
proof -
  have 1: "failing_list_is_empty failing_env"
    by (simp add: failing_list_is_empty_def failing_env_def)
  have 2: "\<not> terminate globals_example" by (simp add: globals_example_def)
  have 3: "waitMinute failing_env (globals_example, []) = (globals_example, [])"
    by (simp add: waitMinute_def failing_env_def clock_env_def globals_example_def
                  minute_def second_def)
  have 4: "fetchPasteList failing_env globals_example = (([], Some ''timeout''), globals_example)"
    by (simp add: failing_env_def)
  have 5: "sweep failing_env (globals_example, [] @ [CallFetchPasteList, ChanError (''fetchPasteList: '' @ ''timeout'')]) =
     (globals_example\<lparr>alredyChecked := [(''seen'', 95 * minute)]\<rparr>,
      [CallFetchPasteList, ChanError ''fetchPasteList: timeout''])"
    by (simp add: sweep_def expire_def failing_env_def clock_env_def globals_example_def
                  minute_def second_def)
  from failed_list_fetch[OF 1 2 3 4, of 0] 5
  have "pollCycle failing_env (globals_example, []) =
     (globals_example\<lparr>alredyChecked := [(''seen'', 95 * minute)]\<rparr>,
      [CallFetchPasteList, ChanError ''fetchPasteList: timeout''])"
    by simp
  with 1 2 3 4 show ?thesis by blast
qed

section \<open>The claims about the workers, the signal and the end of main\<close>

text \<open>
  Claim C9. The worker of \<open>chanOutput\<close> calls \<open>sendPasteMessage\<close> once for every paste
  it receives, in order, and sends on \<open>chanError\<close> exactly the errors of the calls that
  failed, with the prefix \<open>sendPasteMessage\<close>. The worker of \<open>chanError\<close> sends nothing on
  \<open>chanError\<close>; it calls \<open>sendErrorMessage\<close> once for every error when \<open>Mailonerror\<close> is
  set and never otherwise; it logs every error it receives, in order, and logs one more
  line for every call of \<open>sendErrorMessage\<close> that failed.
\<close>

theorem workers_report_and_log:
  "sentPastes (snd (outputWorker sendPasteMessage ps (w, []))) = ps \<and>
   chanErrors (snd (outputWorker sendPasteMessage ps (w, []))) =
     map (\<lambda>e. ''sendPasteMessage: '' @ e) (failures (sendResults sendPasteMessage ps w)) \<and>
   chanErrors (snd (errorWorker mailonerror sendErrorMessage errs (w', []))) = [] \<and>
   mails (snd (errorWorker mailonerror sendErrorMessage errs (w', []))) =
     (if mailonerror then errs else []) \<and>
   subseq errs (logs (snd (errorWorker mailonerror sendErrorMessage errs (w', [])))) \<and>
   length (logs (snd (errorWorker mailonerror sendErrorMessage errs (w', [])))) =
     length errs +
     (if mailonerror then length (failures (sendResults sendErrorMessage errs w')) else 0)"
  using outputWorker_events[of sendPasteMessage ps w "[]"]
        errorWorker_events[of mailonerror sendErrorMessage errs w' "[]"]
  by (auto simp: sentPastes_def chanErrors_def mails_def logs_def)

theorem workers_report_and_log_witness:
  "snd (outputWorker (\<lambda>p n. (if n = (0::nat) then Some ''refused'' else None, Suc n))
          [\<lparr>Key = ''a''\<rparr>, \<lparr>Key = ''b''\<rparr>] (0, [])) =
     [CallSendPasteMessage \<lparr>Key = ''a''\<rparr>, ChanError ''sendPasteMessage: refused'',
      CallSendPasteMessage \<lparr>Key = ''b''\<rparr>] \<and>
   chanErrors (snd (outputWorker (\<lambda>p n. (if n = (0::nat) then Some ''refused'' else None, Suc n))
          [\<lparr>Key = ''a''\<rparr>, \<lparr>Key = ''b''\<rparr>] (0, []))) = [''sendPasteMessage: refused''] \<and>
   snd (errorWorker True (\<lambda>e n. (if n = (0::nat) then Some ''no route'' else None, Suc n))
          [''fetch: timeout'', ''fetch: reset''] (0, [])) =
     [Log ''fetch: timeout'', CallSendErrorMessage ''fetch: timeout'',
      Log ''ERROR on sending error mail: no route'',
      Log ''fetch: reset'', CallSendErrorMessage ''fetch: reset''] \<and>
   mails (snd (errorWorker True (\<lambda>e n. (if n = (0::nat) then Some ''no route'' else None, Suc n))
          [''fetch: timeout'', ''fetch: reset''] (0, []))) = [''fetch: timeout'', ''fetch: reset'']"
proof -
  let ?send = "\<lambda>(p::paste) n. (if n = (0::nat) then Some ''refused'' else None, Suc n)"
  let ?mail = "\<lambda>(e::string) n. (if n = (0::nat) then Some ''no route'' else None, Suc n)"
  note t = workers_report_and_log[of ?send "[\<lparr>Key = ''a''\<rparr>, \<lparr>Key = ''b''\<rparr>]" 0
             True ?mail "[''fetch: timeout'', ''fetch: reset'']" 0]
  have 1: "chanErrors (snd (outputWorker ?send [\<lparr>Key = ''a''\<rparr>, \<lparr>Key = ''b''\<rparr>] (0, []))) =
           [''sendPasteMessage: refused'']"
    using t by (simp add: failures_def)
  have 2: "mails (snd (errorWorker True ?mail [''fetch: timeout'', ''fetch: reset''] (0, []))) =
           [''fetch: timeout'', ''fetch: reset'']"
    using t by simp
  have 3: "snd (outputWorker ?send [\<lparr>Key = ''a''\<rparr>, \<lparr>Key = ''b''\<rparr>] (0, [])) =
     [CallSendPasteMessage \<lparr>Key = ''a''\<rparr>, ChanError ''sendPasteMessage: refused'',
      CallSendPasteMessage \<lparr>Key = ''b''\<rparr>]"
    by (simp add: report_def)
  have 4: "snd (errorWorker True ?mail [''fetch: timeout'', ''fetch: reset''] (0, [])) =
     [Log ''fetch: timeout'', CallSendErrorMessage ''fetch: timeout'',
      Log ''ERROR on sending error mail: no route'',
      Log ''fetch: reset'', CallSendErrorMessage ''fetch: reset'']"
    by simp
  from 1 2 3 4 show ?thesis by blast
qed

text \<open>
  Claim C6. In every state that the three goroutines can reach after the loop of \<open>main\<close>
  has ended: the worker of \<open>chanOutput\<close> has not sent on a closed \<open>chanError\<close>;
  \<open>chanError\<close> is closed only when \<open>chanOutput\<close> is closed and its worker has ended; when
  \<open>main\<close> has returned, both channels are closed and both workers have ended, each
  having found its channel closed and empty; and until \<open>main\<close> has returned some
  goroutine can take a step.
\<close>

theorem shutdown_order:
  assumes "reachable s"
  shows "outputAt s \<noteq> OutPanic \<and>
         (errorClosed s \<longrightarrow> outputClosed s \<and> outputAt s = OutDone) \<and>
         (mainAt s = Returned \<longrightarrow>
            outputClosed s \<and> errorClosed s \<and> outputAt s = OutDone \<and> errorAt s = ErrDone) \<and>
         (mainAt s \<noteq> Returned \<longrightarrow> (\<exists>t. step s t))"
proof -
  have i: "shutdown_inv s" using assms by (rule reachable_inv)
  then have "outputAt s \<noteq> OutPanic"
    and "errorClosed s \<longrightarrow> outputClosed s \<and> outputAt s = OutDone"
    and "mainAt s = Returned \<longrightarrow>
            outputClosed s \<and> errorClosed s \<and> outputAt s = OutDone \<and> errorAt s = ErrDone"
    by (auto simp: shutdown_inv_def split: main_pc.splits)
  moreover have "mainAt s \<noteq> Returned \<longrightarrow> (\<exists>t. step s t)"
    using inv_progress[OF i] by blast
  ultimately show ?thesis by blast
qed

theorem shutdown_order_witness:
  "reachable shutdown_final \<and> mainAt shutdown_final = Returned \<and>
   errorClosed shutdown_final \<and> outputClosed shutdown_final \<and>
   outputAt shutdown_final = OutDone \<and> errorAt shutdown_final = ErrDone \<and>
   reachable shutdown_example \<and> mainAt shutdown_example \<noteq> Returned \<and>
   (\<exists>t. step shutdown_example t)"
proof -
  have r: "reachable shutdown_final" by (rule shutdown_example_run)
  have m: "mainAt shutdown_final = Returned" by (simp add: shutdown_final_def)
  have r0: "reachable shutdown_example"
    by (rule reachable.start) (simp add: after_loop_def shutdown_example_def)
  have m0: "mainAt shutdown_example \<noteq> Returned" by (simp add: shutdown_example_def)
  from shutdown_order[OF r] m shutdown_order[OF r0] m0 r r0 show ?thesis by blast
qed

text \<open>
  Claim C2, on the code: after one interrupt, and after three, the handler has set
  \<open>terminate\<close> and has not cancelled the context. \<open>cancel()\<close> stands after the \<open>range\<close>
  over \<open>chanSignal\<close>, which ends only when the channel is closed, and \<open>main.go\<close> never
  closes it.
\<close>

theorem interrupt_does_not_cancel:
  "signalHandler [Received] \<lparr>terminateFlag = False, cancelled = False\<rparr> =
     \<lparr>terminateFlag = True, cancelled = False\<rparr> \<and>
   signalHandler [Received, Received, Received] \<lparr>terminateFlag = False, cancelled = False\<rparr> =
     \<lparr>terminateFlag = True, cancelled = False\<rparr>"
  by simp

end
